theory Spec2Isabelle
  imports Main
begin

section \<open>Strings and numbers of the host language\<close>

text \<open>
  A JavaScript string is a sequence of UTF-16 code units; a code unit is modelled by its
  number. \<open>str\<close> turns an ASCII literal into such a sequence.
\<close>

type_synonym jsstring = "nat list"

definition str :: "string \<Rightarrow> jsstring" where
  "str s = map of_char s"

text \<open>The character class \<open>\d\<close> of a regular expression: ASCII digits only.\<close>

definition isDigit :: "nat \<Rightarrow> bool" where
  "isDigit c \<longleftrightarrow> 48 \<le> c \<and> c \<le> 57"

text \<open>
  A Number is not-a-number, an infinity, or a finite value. A finite value is kept as the
  decimal \<open>\<plusminus> s * 10 ^ e\<close> that the language prints for it (the sign is kept apart,
  so that negative zero is a value). Arithmetic on these decimals is exact: the binary
  rounding of IEEE doubles is not part of the model.
\<close>

datatype jsnum = NaN | PosInf | NegInf | Fin bool nat int

function decimal :: "nat \<Rightarrow> jsstring" where
  "decimal n = (if n < 10 then [48 + n] else decimal (n div 10) @ [48 + n mod 10])"
  by pat_completeness auto
termination
  by (relation "measure id") auto

declare decimal.simps [simp del]

function normDec :: "nat \<Rightarrow> int \<Rightarrow> nat \<times> int" where
  "normDec s e = (if s \<noteq> 0 \<and> s mod 10 = 0 then normDec (s div 10) (e + 1) else (s, e))"
  by pat_completeness auto
termination
  by (relation "measure fst") auto

declare normDec.simps [simp del]

text \<open>
  Number::toString of the language standard, radix 10: with \<open>k\<close> digits \<open>ds\<close> and
  the decimal point after the \<open>n\<close>-th digit, plain notation for \<open>-6 < n \<le> 21\<close> and
  exponent notation otherwise.
\<close>

definition numToStringPos :: "nat \<Rightarrow> int \<Rightarrow> jsstring" where
  "numToStringPos s e =
     (let (s', e') = normDec s e; ds = decimal s'; k = int (length ds); n = e' + k in
      if k \<le> n \<and> n \<le> 21 then ds @ replicate (nat (n - k)) 48
      else if 0 < n \<and> n \<le> 21 then take (nat n) ds @ [46] @ drop (nat n) ds
      else if - 6 < n \<and> n \<le> 0 then [48, 46] @ replicate (nat (- n)) 48 @ ds
      else (if k = 1 then ds else take 1 ds @ [46] @ drop 1 ds)
           @ [101] @ (if 0 \<le> n - 1 then [43] else [45]) @ decimal (nat \<bar>n - 1\<bar>))"

definition numToString :: "jsnum \<Rightarrow> jsstring" where
  "numToString v = (case v of
      NaN \<Rightarrow> str ''NaN''
    | PosInf \<Rightarrow> str ''Infinity''
    | NegInf \<Rightarrow> str ''-Infinity''
    | Fin neg s e \<Rightarrow>
        (if s = 0 then str ''0'' else (if neg then [45] else []) @ numToStringPos s e))"

text \<open>The values of type \<open>string | number\<close>, and the template literal \<open>`${value}`\<close>.\<close>

datatype strnum = S jsstring | N jsnum

definition template :: "strnum \<Rightarrow> jsstring" where
  "template v = (case v of S s \<Rightarrow> s | N n \<Rightarrow> numToString n)"

text \<open>\<open>s.split(d)\<close> for a one-character separator: every occurrence splits.\<close>

fun split :: "nat \<Rightarrow> jsstring \<Rightarrow> jsstring list" where
  "split d [] = [[]]"
| "split d (c # cs) =
     (if c = d then [] # split d cs
      else (case split d cs of [] \<Rightarrow> [[c]] | x # xs \<Rightarrow> (c # x) # xs))"

text \<open>An element of an array inside a template literal: a missing one prints as \<open>undefined\<close>.\<close>

definition seg :: "jsstring list \<Rightarrow> nat \<Rightarrow> jsstring" where
  "seg arr i = (if i < length arr then arr ! i else str ''undefined'')"

section \<open>formatThousands\<close>

text \<open>
  The lookahead \<open>(?=(\d{3})+$)\<close>: what follows, up to the end of the string, is one or
  more groups of three digits.
\<close>

definition groups3 :: "jsstring \<Rightarrow> bool" where
  "groups3 r \<longleftrightarrow> r \<noteq> [] \<and> length r mod 3 = 0 \<and> list_all isDigit r"

text \<open>
  \<open>s.replace(/(\d)(?=(\d{3})+$)/g, ($1) => `${$1}${sign}`)\<close>: every digit that the
  lookahead accepts is followed by the separator.
\<close>

fun insertSign :: "jsstring \<Rightarrow> jsstring \<Rightarrow> jsstring" where
  "insertSign sign [] = []"
| "insertSign sign (c # cs) =
     (if isDigit c \<and> groups3 cs then c # sign @ insertSign sign cs
      else c # insertSign sign cs)"

definition formatThousands :: "strnum \<Rightarrow> jsstring \<Rightarrow> jsstring" where
  "formatThousands val sign =
     (let vl = template val in
      if length sign = 0 then vl
      else if 46 \<in> set vl then
        (let arr = split 46 vl in insertSign sign (seg arr 0) @ [46] @ seg arr 1)
      else insertSign sign vl)"

text \<open>
  The grouping in the words of the specification: the separator stands before every
  group of three digits counted from the right.
\<close>

function group3 :: "jsstring \<Rightarrow> jsstring \<Rightarrow> jsstring" where
  "group3 sign ds =
     (if length ds \<le> 3 then ds
      else group3 sign (take (length ds - 3) ds) @ sign @ drop (length ds - 3) ds)"
  by pat_completeness auto
termination
  by (relation "measure (\<lambda>(sign, ds). length ds)") auto

declare group3.simps [simp del]

section \<open>Regular expressions built at run time\<close>

text \<open>
  The pattern of \<open>formatFoldDecimal\<close> is assembled from the threshold's text, so its
  meaning depends on that text. The fragment of the pattern language it can reach:
  an atom is a literal character, the wildcard \<open>.\<close> (any character but a line
  terminator) or a character range; an item is one atom or an atom repeated at least
  \<open>n\<close> times (\<open>{n,}\<close>, \<open>+\<close>, \<open>*\<close>).
\<close>

datatype atom = Lit nat | AnyChar | CharRange nat nat

datatype item = One atom | AtLeast nat atom

definition lineTerminator :: "nat \<Rightarrow> bool" where
  "lineTerminator c \<longleftrightarrow> c = 10 \<or> c = 13 \<or> c = 8232 \<or> c = 8233"

fun atomOk :: "atom \<Rightarrow> nat \<Rightarrow> bool" where
  "atomOk (Lit l) c = (c = l)"
| "atomOk AnyChar c = (\<not> lineTerminator c)"
| "atomOk (CharRange lo hi) c = (lo \<le> c \<and> c \<le> hi)"

text \<open>\<open>matchEnd items s\<close>: the items, followed by the anchor \<open>$\<close>, match all of \<open>s\<close>.\<close>

function matchEnd :: "item list \<Rightarrow> jsstring \<Rightarrow> bool" where
  "matchEnd [] s = (s = [])"
| "matchEnd (One a # ps) [] = False"
| "matchEnd (One a # ps) (c # cs) = (atomOk a c \<and> matchEnd ps cs)"
| "matchEnd (AtLeast n a # ps) [] = (n = 0 \<and> matchEnd ps [])"
| "matchEnd (AtLeast n a # ps) (c # cs) =
     ((atomOk a c \<and> matchEnd (AtLeast (n - 1) a # ps) cs) \<or> (n = 0 \<and> matchEnd ps (c # cs)))"
  by pat_completeness auto
termination
  by (relation "measure (\<lambda>(ps, s). length ps + length s)") auto

text \<open>\<open>reg.test(s)\<close> for an unanchored start: a match may begin at any position.\<close>

fun regTest :: "item list \<Rightarrow> jsstring \<Rightarrow> bool" where
  "regTest ps [] = matchEnd ps []"
| "regTest ps (c # cs) = (matchEnd ps (c # cs) \<or> regTest ps cs)"

definition natOfDigits :: "jsstring \<Rightarrow> nat" where
  "natOfDigits ds = foldl (\<lambda>acc c. acc * 10 + (c - 48)) 0 ds"

text \<open>
  The text between the braces of \<open>0{...,}\<close>. When it is a run of digits the braces are
  a quantifier with that minimum. Otherwise the braces are literal characters, and the
  text is read as pattern characters: \<open>.\<close> is the wildcard and \<open>+\<close> repeats the
  character before it (a Number's text has no other special character).
\<close>

definition quantifierMin :: "jsstring \<Rightarrow> nat option" where
  "quantifierMin ts = (if ts \<noteq> [] \<and> list_all isDigit ts then Some (natOfDigits ts) else None)"

fun patternChars :: "jsstring \<Rightarrow> item list" where
  "patternChars [] = []"
| "patternChars [c] = [One (if c = 46 then AnyChar else Lit c)]"
| "patternChars (c # d # cs) =
     (if d = 43 then AtLeast 1 (if c = 46 then AnyChar else Lit c) # patternChars cs
      else One (if c = 46 then AnyChar else Lit c) # patternChars (d # cs))"

text \<open>\<open>new RegExp("\\.0{" + threshold + ",}[1-9][0-9]*$")\<close>\<close>

definition foldRegExp :: "jsnum \<Rightarrow> item list" where
  "foldRegExp threshold =
     (let ts = numToString threshold in
      [One (Lit 46)] @
      (case quantifierMin ts of
         Some n \<Rightarrow> [AtLeast n (Lit 48)]
       | None \<Rightarrow> [One (Lit 48), One (Lit 123)] @ patternChars ts @ [One (Lit 44), One (Lit 125)]) @
      [One (CharRange 49 57), AtLeast 0 (CharRange 48 57)])"

section \<open>formatFoldDecimal\<close>

text \<open>
  The replacement text of \<open>String.prototype.replace\<close> when it is given as a string:
  \<open>$$\<close> is a dollar sign, \<open>$&\<close> the matched text, \<open>$`\<close> and \<open>$'\<close> the text
  before and after the match. The pattern \<open>/0*/\<close> has no capture group, so \<open>$1\<close>
  and the like stand for themselves.
\<close>

fun getSubstitution :: "jsstring \<Rightarrow> jsstring \<Rightarrow> jsstring \<Rightarrow> jsstring \<Rightarrow> jsstring" where
  "getSubstitution matched pfx sfx [] = []"
| "getSubstitution matched pfx sfx [c] = [c]"
| "getSubstitution matched pfx sfx (c # d # cs) =
     (if c = 36 \<and> d = 36 then 36 # getSubstitution matched pfx sfx cs
      else if c = 36 \<and> d = 38 then matched @ getSubstitution matched pfx sfx cs
      else if c = 36 \<and> d = 96 then pfx @ getSubstitution matched pfx sfx cs
      else if c = 36 \<and> d = 39 then sfx @ getSubstitution matched pfx sfx cs
      else c # getSubstitution matched pfx sfx (d # cs))"

text \<open>\<open>arr.join(d)\<close>\<close>

fun join :: "nat \<Rightarrow> jsstring list \<Rightarrow> jsstring" where
  "join d [] = []"
| "join d [x] = x"
| "join d (x # y # ys) = x @ d # join d (y # ys)"

text \<open>
  \<open>v.match(/0*/)\<close> always succeeds, at index 0, with the leading zeros of \<open>v\<close>
  (possibly none), so the guard \<open>isValid(match)\<close> always holds;
  \<open>v.replace(/0*/, r)\<close> replaces that same match.
\<close>

definition formatFoldDecimal :: "strnum \<Rightarrow> jsnum \<Rightarrow> (nat \<Rightarrow> jsstring) \<Rightarrow> jsstring" where
  "formatFoldDecimal val threshold format =
     (let vl = template val; reg = foldRegExp threshold in
      if regTest reg vl then
        (let result = split 46 vl;
             lastIndex = length result - 1;
             v = seg result lastIndex;
             match0 = takeWhile (\<lambda>c. c = 48) v;
             count = length match0;
             rest = drop count v
         in join 46 (result[lastIndex := getSubstitution match0 [] rest (48 # format count) @ rest]))
      else vl)"

definition formatFoldDecimalForCurlyBracket :: "strnum \<Rightarrow> jsnum \<Rightarrow> jsstring" where
  "formatFoldDecimalForCurlyBracket val threshold =
     formatFoldDecimal val threshold (\<lambda>count. [123] @ numToString (Fin False count 0) @ [125])"

text \<open>The table \<open>subscriptNumbers\<close>: the digits \<open>0\<close> to \<open>9\<close> and their subscript forms.\<close>

definition subscriptNumbers :: "(nat \<times> jsstring) list" where
  "subscriptNumbers =
     [(48, [8320]), (49, [8321]), (50, [8322]), (51, [8323]), (52, [8324]),
      (53, [8325]), (54, [8326]), (55, [8327]), (56, [8328]), (57, [8329])]"

text \<open>
  \<open>s.replace(/\d/, ($1) => subscriptNumbers[$1] ?? "")\<close>: the pattern is not global,
  so only the first digit of \<open>s\<close> is replaced.
\<close>

fun replaceFirstDigit :: "jsstring \<Rightarrow> jsstring" where
  "replaceFirstDigit [] = []"
| "replaceFirstDigit (c # cs) =
     (if isDigit c then (case map_of subscriptNumbers c of Some r \<Rightarrow> r | None \<Rightarrow> []) @ cs
      else c # replaceFirstDigit cs)"

definition formatFoldDecimalForSubscript :: "strnum \<Rightarrow> jsnum \<Rightarrow> jsstring" where
  "formatFoldDecimalForSubscript val threshold =
     formatFoldDecimal val threshold (\<lambda>count. replaceFirstDigit (numToString (Fin False count 0)))"

section \<open>formatValue\<close>

text \<open>
  The data that \<open>formatValue\<close> walks through: the values of the language, with objects
  as lists of own properties and arrays as lists of elements.
\<close>

datatype jsval = Undefined | Null | Bool bool | Num jsnum | Str jsstring
  | Arr "jsval list" | Obj "(jsstring \<times> jsval) list"

text \<open>
  Modelled from the spec: the predicate \<open>isValid\<close> of \<open>./typeChecks\<close>, which is not
  among the sources: true iff the value is neither null nor undefined.
\<close>

definition isValid :: "jsval \<Rightarrow> bool" where
  "isValid v \<longleftrightarrow> v \<noteq> Null \<and> v \<noteq> Undefined"

text \<open>A property key that is an array index: a digit run without a leading zero.\<close>

definition arrayIndex :: "jsstring \<Rightarrow> nat option" where
  "arrayIndex k =
     (if k \<noteq> [] \<and> list_all isDigit k \<and> (k = [48] \<or> hd k \<noteq> 48) then Some (natOfDigits k)
      else None)"

text \<open>
  \<open>value?.[key]\<close> with a string key, on own properties: a property of an object, an
  element or the length of an array, a character or the length of a string; undefined
  everywhere else. Properties inherited from the prototypes (methods) are not data and
  are left out.
\<close>

definition jsGet :: "jsval \<Rightarrow> jsstring \<Rightarrow> jsval" where
  "jsGet v k = (case v of
      Obj ps \<Rightarrow> (case map_of ps k of Some x \<Rightarrow> x | None \<Rightarrow> Undefined)
    | Arr xs \<Rightarrow>
        (if k = str ''length'' then Num (Fin False (length xs) 0)
         else (case arrayIndex k of
                 Some i \<Rightarrow> (if i < length xs then xs ! i else Undefined)
               | None \<Rightarrow> Undefined))
    | Str s \<Rightarrow>
        (if k = str ''length'' then Num (Fin False (length s) 0)
         else (case arrayIndex k of
                 Some i \<Rightarrow> (if i < length s then Str [s ! i] else Undefined)
               | None \<Rightarrow> Undefined))
    | _ \<Rightarrow> Undefined)"

text \<open>The character class \<open>[^.[\]]\<close>.\<close>

definition isPropChar :: "nat \<Rightarrow> bool" where
  "isPropChar c \<longleftrightarrow> c \<noteq> 46 \<and> c \<noteq> 91 \<and> c \<noteq> 93"

text \<open>\<open>s.trim()\<close>: white space and line terminators are removed at both ends.\<close>

definition isWhite :: "nat \<Rightarrow> bool" where
  "isWhite c \<longleftrightarrow> c \<in> {9, 10, 11, 12, 13, 32, 160, 5760, 8232, 8233, 8239, 8287, 12288, 65279}
     \<or> (8192 \<le> c \<and> c \<le> 8202)"

definition trim :: "jsstring \<Rightarrow> jsstring" where
  "trim s = rev (dropWhile isWhite (rev (dropWhile isWhite s)))"

text \<open>
  The second alternative of \<open>rePropName\<close>, first branch, after the opening bracket:
  \<open>([^"'][^[]*)\]\<close>. The first character is no quote; the greedy run of characters
  other than \<open>[\<close> is given back up to its last \<open>]\<close>. The result is group 1 and the text
  after the match.
\<close>

definition bracketPlain :: "jsstring \<Rightarrow> (jsstring \<times> jsstring) option" where
  "bracketPlain s = (case s of
      [] \<Rightarrow> None
    | c # cs \<Rightarrow>
        (if c = 34 \<or> c = 39 then None
         else (let p = takeWhile (\<lambda>x. x \<noteq> 91) cs in
               if 93 \<in> set p then
                 (let q = rev (tl (dropWhile (\<lambda>x. x \<noteq> 93) (rev p)))
                  in Some (c # q, drop (Suc (length q)) cs))
               else None)))"

text \<open>
  The second branch, after the opening quote \<open>qt\<close>:
  \<open>((?:(?!\2)[^\\]|\\.)*?)\2\]\<close>. The lazy loop stops at the first place where the
  quote and \<open>]\<close> follow; an item is a character other than the quote and the backslash,
  or a backslash with the character after it (no line terminator). The result is group 3
  and the text after the match.
\<close>

fun bracketQuoted :: "nat \<Rightarrow> jsstring \<Rightarrow> (jsstring \<times> jsstring) option" where
  "bracketQuoted qt [] = None"
| "bracketQuoted qt (c # cs) =
     (if c = qt then
        (case cs of [] \<Rightarrow> None | d # ds \<Rightarrow> if d = 93 then Some ([], ds) else None)
      else if c = 92 then
        (case cs of
           [] \<Rightarrow> None
         | d # ds \<Rightarrow>
             (if lineTerminator d then None
              else (case bracketQuoted qt ds of
                      None \<Rightarrow> None
                    | Some (k, r) \<Rightarrow> Some (92 # d # k, r))))
      else (case bracketQuoted qt cs of None \<Rightarrow> None | Some (k, r) \<Rightarrow> Some (c # k, r)))"

text \<open>\<open>s.replace(/\\(\\)?/g, "$1")\<close>: a doubled backslash becomes one, a single one goes.\<close>

fun unescape :: "jsstring \<Rightarrow> jsstring" where
  "unescape [] = []"
| "unescape [c] = (if c = 92 then [] else [c])"
| "unescape (c # d # cs) =
     (if c = 92 then (if d = 92 then 92 # unescape cs else unescape (d # cs))
      else c # unescape (d # cs))"

text \<open>
  The bracket alternative with the callback's choice of key: the unescaped group 3 when
  the quote group took part, else the trimmed group 1.
\<close>

definition bracketKey :: "jsstring \<Rightarrow> (jsstring \<times> jsstring) option" where
  "bracketKey s = (case bracketPlain s of
      Some (g, r) \<Rightarrow> Some (trim g, r)
    | None \<Rightarrow>
        (case s of
           [] \<Rightarrow> None
         | qt # cs \<Rightarrow>
             (if qt = 34 \<or> qt = 39 then
                (case bracketQuoted qt cs of None \<Rightarrow> None | Some (g, r) \<Rightarrow> Some (unescape g, r))
              else None)))"

text \<open>
  The third alternative, \<open>(?=(?:\.|\[\])(?:\.|\[\]|$))\<close>: an empty match where a
  separator is followed by a separator or by the end of the string.
\<close>

definition sepAt :: "jsstring \<Rightarrow> jsstring option" where
  "sepAt s = (case s of
      [] \<Rightarrow> None
    | c # cs \<Rightarrow>
        (if c = 46 then Some cs
         else if c = 91 then (case cs of [] \<Rightarrow> None | d # ds \<Rightarrow> if d = 93 then Some ds else None)
         else None))"

definition emptyKey :: "jsstring \<Rightarrow> bool" where
  "emptyKey s = (case sepAt s of None \<Rightarrow> False | Some r \<Rightarrow> r = [] \<or> sepAt r \<noteq> None)"

text \<open>
  One step of \<open>key.replace(rePropName, ...)\<close> at the start of \<open>s\<close>: the key pushed
  on the path, if there is a match here, and the text where the search goes on (after a
  match; one character on after an empty match or no match).
\<close>

definition propStep :: "jsstring \<Rightarrow> jsstring option \<times> jsstring" where
  "propStep s = (case s of
      [] \<Rightarrow> (None, [])
    | c # cs \<Rightarrow>
        (if isPropChar c then (Some (takeWhile isPropChar s), dropWhile isPropChar s)
         else (case (if c = 91 then bracketKey cs else None) of
                 Some (k, r) \<Rightarrow> (Some k, r)
               | None \<Rightarrow> (if emptyKey s then Some [] else None, cs))))"

text \<open>The path: the keys of all the matches, left to right.\<close>

function stringToPath :: "jsstring \<Rightarrow> jsstring list" where
  "stringToPath s =
     (if s = [] then []
      else (case propStep s of
              (Some k, r) \<Rightarrow> k # stringToPath r
            | (None, r) \<Rightarrow> stringToPath r))"
  by pat_completeness auto
termination
proof -
  have quoted: "bracketQuoted qt s = Some (k, r) \<Longrightarrow> length r < length s" for qt s k r
  proof (induction qt s arbitrary: k r rule: bracketQuoted.induct)
    case (1 qt)
    then show ?case by simp
  next
    case (2 qt c cs)
    show ?case
    proof (cases "c = qt")
      case True
      with "2.prems" show ?thesis by (auto split: list.splits if_splits)
    next
      case False
      show ?thesis
      proof (cases "c = 92")
        case True
        with False "2.prems" obtain d ds k' where "cs = d # ds" "\<not> lineTerminator d"
          "bracketQuoted qt ds = Some (k', r)"
          by (auto split: list.splits if_splits option.splits)
        with "2.IH"(1) [of d ds k' r] False True show ?thesis by simp
      next
        case F2: False
        with False "2.prems" obtain k' where "bracketQuoted qt cs = Some (k', r)"
          by (auto split: option.splits)
        with "2.IH"(2) [of k' r] False F2 show ?thesis by simp
      qed
    qed
  qed
  have key: "bracketKey s = Some (k, r) \<Longrightarrow> length r \<le> length s" for s k r
    by (auto simp: bracketKey_def bracketPlain_def Let_def
        split: option.splits list.splits if_splits dest!: quoted)
  have step: "propStep s = (a, r) \<Longrightarrow> s \<noteq> [] \<Longrightarrow> length r < length s" for s a r
  proof (cases s)
    case Nil
    then show "s \<noteq> [] \<Longrightarrow> ?thesis" by simp
  next
    case (Cons c cs)
    assume p: "propStep s = (a, r)"
    have "length (dropWhile isPropChar (c # cs)) < length (c # cs)" if "isPropChar c"
      using that length_dropWhile_le [of isPropChar cs] by simp
    then show ?thesis
      using Cons p by (auto simp: propStep_def split: option.splits if_splits dest!: key)
  qed
  show ?thesis
    by (relation "measure length") (auto dest: step [OF sym])
qed

declare stringToPath.simps [simp del]

text \<open>
  \<open>while (isValid(value) && index < length) { value = value?.[path[index++]] }\<close>
\<close>

fun walk :: "jsval \<Rightarrow> jsstring list \<Rightarrow> jsval" where
  "walk v [] = v"
| "walk v (k # ks) = (if isValid v then walk (jsGet v k) ks else v)"

text \<open>\<open>a ?? b\<close>\<close>

definition nullish :: "jsval \<Rightarrow> jsval \<Rightarrow> jsval" where
  "nullish a b = (if a = Null \<or> a = Undefined then b else a)"

text \<open>A default value that the caller leaves out is \<open>Undefined\<close>.\<close>

definition formatValue :: "jsval \<Rightarrow> jsstring \<Rightarrow> jsval \<Rightarrow> jsval" where
  "formatValue data key defaultValue =
     (if isValid data then
        (let path = stringToPath key;
             v = walk data path
         in if isValid v then v else nullish defaultValue (Str (str ''--'')))
      else nullish defaultValue (Str (str ''--'')))"

section \<open>formatDateToDateTime and formatDateToString\<close>

text \<open>What a call of the platform can throw.\<close>

datatype jserror = RangeError | TypeError

text \<open>
  The injected \<open>Intl.DateTimeFormat\<close> is a parameter: the function that takes the
  timestamp to the parts \<open>formatToParts(new Date(timestamp))\<close> returns, each a type and
  a value, or to the error it throws.
\<close>

type_synonym dateTimeFormat = "jsnum \<Rightarrow> jserror + (jsstring \<times> jsstring) list"

text \<open>The body of the \<open>forEach\<close>: one part is stored in the record \<open>date\<close>.\<close>

definition setPart :: "(jsstring \<rightharpoonup> jsstring) \<Rightarrow> jsstring \<times> jsstring \<Rightarrow> (jsstring \<rightharpoonup> jsstring)" where
  "setPart date p = (case p of (ty, val) \<Rightarrow>
     if ty = str ''year'' then date(str ''YYYY'' \<mapsto> val)
     else if ty = str ''month'' then date(str ''MM'' \<mapsto> val)
     else if ty = str ''day'' then date(str ''DD'' \<mapsto> val)
     else if ty = str ''hour'' then date(str ''HH'' \<mapsto> (if val = str ''24'' then str ''00'' else val))
     else if ty = str ''minute'' then date(str ''mm'' \<mapsto> val)
     else if ty = str ''second'' then date(str ''ss'' \<mapsto> val)
     else date)"

definition formatDateToDateTime :: "dateTimeFormat \<Rightarrow> jsnum \<Rightarrow> jserror + (jsstring \<rightharpoonup> jsstring)" where
  "formatDateToDateTime dateTimeFormat timestamp =
     (case dateTimeFormat timestamp of
        Inl e \<Rightarrow> Inl e
      | Inr parts \<Rightarrow> Inr (foldl setPart Map.empty parts))"

text \<open>The alternatives of \<open>/YYYY|MM|DD|HH|mm|ss/g\<close>, in their order.\<close>

definition dateTokens :: "jsstring list" where
  "dateTokens = [str ''YYYY'', str ''MM'', str ''DD'', str ''HH'', str ''mm'', str ''ss'']"

definition tokenAt :: "jsstring \<Rightarrow> jsstring option" where
  "tokenAt s = find (\<lambda>tok. take (length tok) s = tok) dateTokens"

text \<open>\<open>date[key]\<close> as the result of the callback: a missing field prints as \<open>undefined\<close>.\<close>

definition dateField :: "(jsstring \<rightharpoonup> jsstring) \<Rightarrow> jsstring \<Rightarrow> jsstring" where
  "dateField date key = (case date key of Some v \<Rightarrow> v | None \<Rightarrow> str ''undefined'')"

text \<open>
  \<open>format.replace(/YYYY|MM|DD|HH|mm|ss/g, (key) => date[key])\<close>: the scan goes on
  after each match, in the template, never in the text put in its place.
\<close>

function replaceTokens :: "(jsstring \<rightharpoonup> jsstring) \<Rightarrow> jsstring \<Rightarrow> jsstring" where
  "replaceTokens date s =
     (if s = [] then []
      else (case tokenAt s of
              Some tok \<Rightarrow> dateField date tok @ replaceTokens date (drop (length tok) s)
            | None \<Rightarrow> hd s # replaceTokens date (tl s)))"
  by pat_completeness auto
termination
proof -
  have "tok \<noteq> []" if "tokenAt s = Some tok" for s tok
  proof -
    from that have "tok \<in> set dateTokens"
      unfolding tokenAt_def by (metis find_Some_iff nth_mem)
    then show ?thesis by (auto simp: dateTokens_def str_def)
  qed
  then show ?thesis
    by (relation "measure (\<lambda>(date, s). length s)") auto
qed

declare replaceTokens.simps [simp del]

definition formatDateToString :: "dateTimeFormat \<Rightarrow> jsnum \<Rightarrow> jsstring \<Rightarrow> jserror + jsstring" where
  "formatDateToString dateTimeFormat timestamp format =
     (case formatDateToDateTime dateTimeFormat timestamp of
        Inl e \<Rightarrow> Inl e
      | Inr date \<Rightarrow> Inr (replaceTokens date format))"

section \<open>Numeric coercion and the Number methods\<close>

text \<open>
  Modelled from the spec: the predicate \<open>isNumber\<close> of \<open>./typeChecks\<close>, which is not
  among the sources: true iff the value is a finite number.
\<close>

definition isNumber :: "jsnum \<Rightarrow> bool" where
  "isNumber v = (case v of Fin neg s e \<Rightarrow> True | _ \<Rightarrow> False)"

text \<open>
  The largest magnitude a Number holds: a decimal of at least \<open>2^1024 - 2^970\<close>
  becomes an infinity.
\<close>

definition overflowBound :: nat where
  "overflowBound = 179769313486231580793728971405303415079934132710037826936173778980444968292764750946649017977587207096330286416692887910946555547851940402630657488671505820681908902000708383676273854845817711531764475730270069855571366959622842914819860834936475292719074168444365510704342711559699508093042880177904174497792"

definition overflows :: "nat \<Rightarrow> int \<Rightarrow> bool" where
  "overflows m e =
     (if m = 0 then False
      else (let n = int (length (decimal m)) + e in
            if 309 < n then True
            else if n < 309 then False
            else if 0 \<le> e then overflowBound \<le> m * 10 ^ nat e
            else overflowBound * 10 ^ nat (- e) \<le> m))"

definition finiteOrInfinity :: "bool \<Rightarrow> nat \<Rightarrow> int \<Rightarrow> jsnum" where
  "finiteOrInfinity neg m e = (if overflows m e then (if neg then NegInf else PosInf) else Fin neg m e)"

text \<open>Digits in a base up to 16, for the literals \<open>0b\<close>, \<open>0o\<close> and \<open>0x\<close>.\<close>

definition digitVal :: "nat \<Rightarrow> nat option" where
  "digitVal c =
     (if 48 \<le> c \<and> c \<le> 57 then Some (c - 48)
      else if 97 \<le> c \<and> c \<le> 102 then Some (c - 87)
      else if 65 \<le> c \<and> c \<le> 70 then Some (c - 55)
      else None)"

definition baseDigits :: "nat \<Rightarrow> jsstring \<Rightarrow> nat option" where
  "baseDigits b ds =
     (if ds \<noteq> [] \<and> list_all (\<lambda>c. case digitVal c of None \<Rightarrow> False | Some d \<Rightarrow> d < b) ds
      then Some (foldl (\<lambda>acc c. acc * b + (case digitVal c of None \<Rightarrow> 0 | Some d \<Rightarrow> d)) 0 ds)
      else None)"

definition nonDecimal :: "jsstring \<Rightarrow> nat option" where
  "nonDecimal t = (case t of
      z # x # ds \<Rightarrow>
        (if z \<noteq> 48 then None
         else if x = 98 \<or> x = 66 then baseDigits 2 ds
         else if x = 111 \<or> x = 79 then baseDigits 8 ds
         else if x = 120 \<or> x = 88 then baseDigits 16 ds
         else None)
    | _ \<Rightarrow> None)"

text \<open>The exponent part \<open>e\<close>, optional sign, digits; nothing at all is exponent 0.\<close>

definition exponentPart :: "jsstring \<Rightarrow> int option" where
  "exponentPart r = (case r of
      [] \<Rightarrow> Some 0
    | c # cs \<Rightarrow>
        (if c = 101 \<or> c = 69 then
           (let neg = (cs \<noteq> [] \<and> hd cs = 45);
                ds = (if cs \<noteq> [] \<and> (hd cs = 45 \<or> hd cs = 43) then tl cs else cs)
            in if ds \<noteq> [] \<and> list_all isDigit ds
               then Some (if neg then - int (natOfDigits ds) else int (natOfDigits ds))
               else None)
         else None))"

text \<open>
  An unsigned decimal literal: \<open>Infinity\<close>, or digits with an optional point and
  fraction (at least one digit in all) and an optional exponent.
\<close>

definition strUnsigned :: "bool \<Rightarrow> jsstring \<Rightarrow> jsnum" where
  "strUnsigned neg u =
     (if u = str ''Infinity'' then (if neg then NegInf else PosInf)
      else (let ip = takeWhile isDigit u;
                r1 = dropWhile isDigit u;
                fp = (if r1 \<noteq> [] \<and> hd r1 = 46 then takeWhile isDigit (tl r1) else []);
                r2 = (if r1 \<noteq> [] \<and> hd r1 = 46 then dropWhile isDigit (tl r1) else r1)
            in if ip = [] \<and> fp = [] then NaN
               else (case exponentPart r2 of
                       None \<Rightarrow> NaN
                     | Some ex \<Rightarrow> finiteOrInfinity neg (natOfDigits (ip @ fp)) (ex - int (length fp)))))"

text \<open>
  StringToNumber of the language standard: white space is trimmed, the empty string is
  zero, anything that is no numeric literal is not-a-number. The value of a decimal
  literal is taken exactly.
\<close>

definition stringToNumber :: "jsstring \<Rightarrow> jsnum" where
  "stringToNumber s =
     (let t = trim s in
      if t = [] then Fin False 0 0
      else (case nonDecimal t of
              Some n \<Rightarrow> finiteOrInfinity False n 0
            | None \<Rightarrow>
                (if hd t = 45 then strUnsigned True (tl t)
                 else if hd t = 43 then strUnsigned False (tl t)
                 else strUnsigned False t)))"

text \<open>The unary plus \<open>+value\<close> on a value of type \<open>string | number\<close>.\<close>

definition toNumber :: "strnum \<Rightarrow> jsnum" where
  "toNumber v = (case v of S s \<Rightarrow> stringToNumber s | N n \<Rightarrow> n)"

text \<open>\<open>a > b\<close> on Numbers: false whenever an operand is not-a-number.\<close>

definition scaled :: "bool \<Rightarrow> nat \<Rightarrow> int \<Rightarrow> int \<Rightarrow> int" where
  "scaled neg s e b = (if neg then - 1 else 1) * int s * 10 ^ nat (e - b)"

definition jsGt :: "jsnum \<Rightarrow> jsnum \<Rightarrow> bool" where
  "jsGt a b = (case a of
      NaN \<Rightarrow> False
    | NegInf \<Rightarrow> False
    | PosInf \<Rightarrow> (case b of NaN \<Rightarrow> False | PosInf \<Rightarrow> False | _ \<Rightarrow> True)
    | Fin n1 s1 e1 \<Rightarrow>
        (case b of
           NegInf \<Rightarrow> True
         | Fin n2 s2 e2 \<Rightarrow> scaled n2 s2 e2 (min e1 e2) < scaled n1 s1 e1 (min e1 e2)
         | _ \<Rightarrow> False))"

text \<open>
  \<open>v / 10^k\<close>, taken exactly. A double quotient can lie just below the decimal quotient
  (1000500 / 1000000 is a double below 1.0005), so that on a quotient whose fourth
  fraction digit is a final 5 the rounding of \<open>toFixed\<close> below can go the other way in
  the program than it does here.
\<close>

definition divPow10 :: "jsnum \<Rightarrow> nat \<Rightarrow> jsnum" where
  "divPow10 v k = (case v of Fin neg s e \<Rightarrow> Fin neg s (e - int k) | _ \<Rightarrow> v)"

text \<open>The integer nearest to \<open>s * 10^e\<close>; of two nearest ones, the larger.\<close>

definition roundScaled :: "nat \<Rightarrow> int \<Rightarrow> nat" where
  "roundScaled s e =
     (if 0 \<le> e then s * 10 ^ nat e else (2 * s + 10 ^ nat (- e)) div (2 * 10 ^ nat (- e)))"

text \<open>
  The fraction \<open>r / 10^f\<close> as the mark \<open>pt\<close> and exactly \<open>f\<close> digits; nothing when
  \<open>f\<close> is 0.
\<close>

definition fixedDigits :: "jsstring \<Rightarrow> nat \<Rightarrow> nat \<Rightarrow> jsstring" where
  "fixedDigits pt f r =
     (if f = 0 then []
      else pt @ replicate (f - length (decimal r)) 48 @ decimal r)"

text \<open>The magnitude \<open>s * 10^e\<close> is \<open>10^21\<close> or more.\<close>

definition atLeast1e21 :: "nat \<Rightarrow> int \<Rightarrow> bool" where
  "atLeast1e21 s e = (if 0 \<le> e then 10 ^ 21 \<le> s * 10 ^ nat e else 10 ^ 21 * 10 ^ nat (- e) \<le> s)"

text \<open>
  \<open>x.toFixed(f)\<close> for a fraction digit count in range: a magnitude of \<open>10^21\<close> or more
  is printed as \<open>toString\<close> does.
\<close>

definition toFixed :: "jsnum \<Rightarrow> nat \<Rightarrow> jsstring" where
  "toFixed x f = (case x of
      Fin neg s e \<Rightarrow>
        (if atLeast1e21 s e then numToString x
         else (let n = roundScaled s (e + int f) in
               (if neg \<and> s \<noteq> 0 then [45] else []) @
               decimal (n div 10 ^ f) @ fixedDigits [46] f (n mod 10 ^ f)))
    | _ \<Rightarrow> numToString x)"

section \<open>formatBigNumber\<close>

text \<open>\<open>`${+(v / 10^k).toFixed(3)}`\<close>\<close>

definition abbreviated :: "jsnum \<Rightarrow> nat \<Rightarrow> jsstring" where
  "abbreviated v k = numToString (stringToNumber (toFixed (divPow10 v k) 3))"

definition formatBigNumber :: "strnum \<Rightarrow> jsstring" where
  "formatBigNumber val =
     (let v = toNumber val in
      if isNumber v then
        (if jsGt v (Fin False 1000000000 0) then abbreviated v 9 @ str ''B''
         else if jsGt v (Fin False 1000000 0) then abbreviated v 6 @ str ''M''
         else if jsGt v (Fin False 1000 0) then abbreviated v 3 @ str ''K''
         else template val)
      else template val)"

section \<open>formatPrecision\<close>

text \<open>
  The option \<open>minimumFractionDigits\<close> (and \<open>maximumFractionDigits\<close>) as the platform
  reads it: a Number that is not-a-number, negative or above 100 is a RangeError;
  otherwise its integer part is the digit count. (Platforms before 2023 had 20 in the
  place of 100.)
\<close>

definition fractionDigits :: "jsnum \<Rightarrow> jserror + nat" where
  "fractionDigits p = (case p of
      Fin neg s e \<Rightarrow>
        (if neg \<and> s \<noteq> 0 then Inl RangeError
         else if jsGt p (Fin False 100 0) then Inl RangeError
         else Inr (if 0 \<le> e then s * 10 ^ nat e else s div 10 ^ nat (- e)))
    | _ \<Rightarrow> Inl RangeError)"

text \<open>
  \<open>v.toLocaleString("id-ID", {minimumFractionDigits: p, maximumFractionDigits: p})\<close>
  for a finite \<open>v\<close>: the magnitude is rounded to \<open>p\<close> fraction digits, halves away
  from zero; the integer digits are grouped in threes by a period; a comma stands before
  the fraction digits.
\<close>

definition toLocaleStringId :: "jsnum \<Rightarrow> nat \<Rightarrow> jsstring" where
  "toLocaleStringId v p = (case v of
      Fin neg s e \<Rightarrow>
        (let n = roundScaled s (e + int p) in
         (if neg then [45] else []) @
         group3 [46] (decimal (n div 10 ^ p)) @ fixedDigits [44] p (n mod 10 ^ p))
    | _ \<Rightarrow> numToString v)"

text \<open>
  A precision that the caller leaves out is \<open>None\<close>: \<open>precision ?? 2\<close>. The two
  options get the same value, so one reading of it stands for both.
\<close>

definition formatPrecision :: "strnum \<Rightarrow> jsnum option \<Rightarrow> jserror + jsstring" where
  "formatPrecision val precision =
     (let v = toNumber val in
      if isNumber v then
        (case fractionDigits (case precision of None \<Rightarrow> Fin False 2 0 | Some p \<Rightarrow> p) of
           Inl err \<Rightarrow> Inl err
         | Inr p \<Rightarrow> Inr (toLocaleStringId v p))
      else Inr (template val))"

section \<open>Digits and evaluation\<close>

lemma replicate_numeral: "replicate (numeral k) x = x # replicate (pred_numeral k) x"
  by (simp add: numeral_eq_Suc)

lemmas js_eval = template_def numToString_def numToStringPos_def normDec.simps
  decimal.simps str_def replicate_numeral formatThousands_def seg_def groups3_def isDigit_def
  group3.simps

lemma decimal_digits: "list_all isDigit (decimal n)"
proof (induction n rule: decimal.induct)
  case (1 n)
  show ?case
  proof (cases "n < 10")
    case True
    then show ?thesis by (subst decimal.simps) (simp add: isDigit_def)
  next
    case False
    have "n mod 10 < 10" by simp
    then have "isDigit (48 + n mod 10)" unfolding isDigit_def by linarith
    with False 1 show ?thesis by (subst decimal.simps) simp
  qed
qed

lemma decimal_nonempty: "decimal n \<noteq> []"
  by (subst decimal.simps) simp

lemma natOfDigits_snoc: "natOfDigits (xs @ [c]) = natOfDigits xs * 10 + (c - 48)"
  by (simp add: natOfDigits_def)

lemma natOfDigits_decimal: "natOfDigits (decimal n) = n"
proof (induction n rule: decimal.induct)
  case (1 n)
  show ?case
  proof (cases "n < 10")
    case True
    then show ?thesis by (subst decimal.simps) (simp add: natOfDigits_def)
  next
    case False
    with 1 show ?thesis
      by (subst decimal.simps) (simp add: natOfDigits_snoc)
  qed
qed

lemma natOfDigits_append:
  "natOfDigits (xs @ ys) = natOfDigits xs * 10 ^ length ys + natOfDigits ys"
proof (induction ys rule: rev_induct)
  case Nil
  then show ?case by (simp add: natOfDigits_def)
next
  case (snoc y ys)
  have "natOfDigits (xs @ ys @ [y]) = natOfDigits ((xs @ ys) @ [y])" by simp
  also have "\<dots> = natOfDigits (xs @ ys) * 10 + (y - 48)" by (rule natOfDigits_snoc)
  finally show ?case
    using snoc by (simp add: natOfDigits_snoc algebra_simps)
qed

lemma natOfDigits_zeros: "natOfDigits (replicate k 48) = 0"
proof (induction k)
  case 0
  then show ?case by (simp add: natOfDigits_def)
next
  case (Suc k)
  have "replicate (Suc k) (48::nat) = replicate k 48 @ [48]"
    by (simp add: replicate_append_same)
  then show ?case using Suc by (simp only: natOfDigits_snoc)
qed

lemma length_decimal: "n < 10 ^ k \<Longrightarrow> 0 < k \<Longrightarrow> length (decimal n) \<le> k"
proof (induction n arbitrary: k rule: decimal.induct)
  case (1 n)
  show ?case
  proof (cases "n < 10")
    case True
    with 1(3) show ?thesis by (subst decimal.simps) simp
  next
    case False
    obtain j where k: "k = Suc j" using 1(3) by (cases k) auto
    have "j \<noteq> 0" using False 1(2) k by (cases j) auto
    moreover have "n div 10 < 10 ^ j" using 1(2) k by (simp add: less_mult_imp_div_less mult.commute)
    ultimately have "length (decimal (n div 10)) \<le> j" using 1(1) [OF False, of j] by simp
    with False k show ?thesis by (subst decimal.simps) simp
  qed
qed

lemma normDec_value:
  "normDec s e = (s', e') \<Longrightarrow> e \<le> e' \<and> s' * 10 ^ nat (e' - e) = s \<and> (s \<noteq> 0 \<longrightarrow> s' \<noteq> 0)"
proof (induction s e arbitrary: s' e' rule: normDec.induct)
  case (1 s e)
  show ?case
  proof (cases "s \<noteq> 0 \<and> s mod 10 = 0")
    case True
    then have "normDec s e = normDec (s div 10) (e + 1)" by (subst normDec.simps) simp
    with "1.prems" have n: "normDec (s div 10) (e + 1) = (s', e')" by simp
    from "1.IH" [OF True n] have ih: "e + 1 \<le> e'" "s' * 10 ^ nat (e' - (e + 1)) = s div 10"
      "s div 10 \<noteq> 0 \<longrightarrow> s' \<noteq> 0"
      by simp_all
    have "nat (e' - e) = Suc (nat (e' - (e + 1)))" using ih(1) by simp
    then have "s' * 10 ^ nat (e' - e) = (s div 10) * 10" using ih(2) by simp
    also have "\<dots> = s" using True by (simp add: mod_eq_0_iff_dvd)
    finally have "s' * 10 ^ nat (e' - e) = s" .
    moreover have "s div 10 \<noteq> 0" using True by (auto simp: div_eq_0_iff)
    ultimately show ?thesis using ih by simp
  next
    case False
    then have "normDec s e = (s, e)" by (subst normDec.simps) auto
    with "1.prems" have "s' = s \<and> e' = e" by simp
    then show ?thesis by simp
  qed
qed

text \<open>The text of a natural number below \<open>10^21\<close> is a run of digits with that value.\<close>

lemma quantifierMin_nat:
  assumes "t < 10 ^ 21"
  shows "quantifierMin (numToString (Fin False t 0)) = Some t"
proof (cases "t = 0")
  case True
  then show ?thesis
    by (simp add: numToString_def quantifierMin_def str_def isDigit_def natOfDigits_def)
next
  case False
  obtain s' e' where nd: "normDec t 0 = (s', e')" by (cases "normDec t 0") auto
  from normDec_value [OF nd] False have v: "0 \<le> e'" "s' * 10 ^ nat e' = t" "s' \<noteq> 0"
    by simp_all
  define ds where "ds = decimal s'"
  have pw: "(10::nat) ^ nat e' \<le> t" using v by (metis One_nat_def Suc_leI le_refl mult_le_mono1 nat_mult_1 not_gr_zero)
  have e21: "nat e' < 21"
  proof (rule ccontr)
    assume "\<not> nat e' < 21"
    then have "(10::nat) ^ 21 \<le> 10 ^ nat e'" by (intro power_increasing) simp_all
    with pw assms show False by simp
  qed
  have "s' * 10 ^ nat e' < 10 ^ (21 - nat e') * 10 ^ nat e'"
    using assms v(2) e21 by (simp add: power_add [symmetric])
  then have "s' < 10 ^ (21 - nat e')" by simp
  then have len: "length ds \<le> 21 - nat e'"
    unfolding ds_def using e21 by (intro length_decimal) simp_all
  have k: "int (length ds) \<le> e' + int (length ds)" "e' + int (length ds) \<le> 21"
    using v(1) len e21 by simp_all
  have "numToString (Fin False t 0) = ds @ replicate (nat e') 48"
    using False k by (simp add: numToString_def numToStringPos_def nd ds_def [symmetric] Let_def)
  moreover have "list_all isDigit (ds @ replicate (nat e') 48)"
    using decimal_digits [of s'] by (auto simp: ds_def isDigit_def list_all_iff)
  moreover have "natOfDigits (ds @ replicate (nat e') 48) = t"
    by (simp add: natOfDigits_append natOfDigits_zeros ds_def natOfDigits_decimal v(2))
  moreover have "ds \<noteq> []" by (simp add: ds_def decimal_nonempty)
  ultimately show ?thesis by (simp add: quantifierMin_def)
qed

section \<open>Properties of formatThousands\<close>

lemma insertSign_short: "length ys \<le> 3 \<Longrightarrow> insertSign sign ys = ys"
proof (induction ys)
  case Nil
  then show ?case by simp
next
  case (Cons c cs)
  have "\<not> groups3 cs"
  proof
    assume "groups3 cs"
    then have "0 < length cs" and "length cs mod 3 = 0" by (simp_all add: groups3_def)
    then have "3 \<le> length cs" by presburger
    with Cons.prems show False by simp
  qed
  with Cons show ?case by simp
qed

lemma groups3_append3:
  "length ys = 3 \<Longrightarrow> list_all isDigit ys \<Longrightarrow> xs \<noteq> [] \<Longrightarrow> groups3 (xs @ ys) = groups3 xs"
  by (auto simp: groups3_def)

lemma groups3_three: "length ys = 3 \<Longrightarrow> list_all isDigit ys \<Longrightarrow> groups3 ys"
  by (auto simp: groups3_def)

lemma insertSign_append3:
  assumes "length ys = 3" "list_all isDigit ys"
  shows "insertSign sign (xs @ ys) =
    (if xs \<noteq> [] \<and> isDigit (last xs) then insertSign sign xs @ sign @ ys
     else insertSign sign xs @ ys)"
proof (induction xs)
  case Nil
  from assms show ?case by (simp add: insertSign_short)
next
  case (Cons c xs)
  show ?case
  proof (cases "xs = []")
    case True
    from assms have "ys \<noteq> []" by auto
    with True assms show ?thesis
      by (simp add: groups3_three insertSign_short groups3_def)
  next
    case False
    with assms Cons show ?thesis
      by (simp add: groups3_append3)
  qed
qed

lemma insertSign_digits: "list_all isDigit ds \<Longrightarrow> insertSign sign ds = group3 sign ds"
proof (induction sign ds rule: group3.induct)
  case (1 sign ds)
  show ?case
  proof (cases "length ds \<le> 3")
    case True
    then show ?thesis by (simp add: insertSign_short group3.simps)
  next
    case False
    define xs where "xs = take (length ds - 3) ds"
    define ys where "ys = drop (length ds - 3) ds"
    have ds: "ds = xs @ ys" by (simp add: xs_def ys_def)
    have ly: "length ys = 3" using False by (simp add: ys_def)
    have dx: "list_all isDigit xs" and dy: "list_all isDigit ys"
      using "1.prems" ds by simp_all
    have ne: "xs \<noteq> []" using False by (auto simp: xs_def)
    then have lx: "isDigit (last xs)" using dx by (simp add: list_all_iff)
    have "insertSign sign ds = insertSign sign xs @ sign @ ys"
      using insertSign_append3 [OF ly dy, of sign xs] ne lx ds by simp
    also have "insertSign sign xs = group3 sign xs"
      using "1.IH" False dx by (simp add: xs_def)
    finally show ?thesis
      using False by (subst group3.simps) (simp add: xs_def ys_def)
  qed
qed

lemma insertSign_prefix:
  "\<not> isDigit x \<Longrightarrow> insertSign sign (pre @ x # ds) = pre @ x # insertSign sign ds"
  by (induction pre) (auto simp: groups3_def)

lemma insertSign_decomp:
  assumes "list_all isDigit ds" "pre = [] \<or> \<not> isDigit (last pre)"
  shows "insertSign sign (pre @ ds) = pre @ group3 sign ds"
proof (cases "pre = []")
  case True
  with assms show ?thesis by (simp add: insertSign_digits)
next
  case False
  then have pre: "pre = butlast pre @ [last pre]" by simp
  from False assms have nd: "\<not> isDigit (last pre)" by simp
  have "insertSign sign (butlast pre @ last pre # ds) = butlast pre @ last pre # insertSign sign ds"
    using nd by (rule insertSign_prefix)
  moreover have "pre @ ds = butlast pre @ last pre # ds"
    using pre by (metis append.assoc append_Cons append_Nil)
  ultimately show ?thesis
    using assms pre by (metis append.assoc append_Cons append_Nil insertSign_digits)
qed

lemma digit_suffix:
  "\<exists>pre ds. xs = pre @ ds \<and> list_all isDigit ds \<and> (pre = [] \<or> \<not> isDigit (last pre))"
proof (induction xs rule: rev_induct)
  case Nil
  then show ?case by simp
next
  case (snoc x xs)
  then obtain pre ds where d: "xs = pre @ ds" "list_all isDigit ds" "pre = [] \<or> \<not> isDigit (last pre)"
    by blast
  show ?case
  proof (cases "isDigit x")
    case True
    with d have "xs @ [x] = pre @ (ds @ [x]) \<and> list_all isDigit (ds @ [x]) \<and> (pre = [] \<or> \<not> isDigit (last pre))"
      by simp
    then show ?thesis by blast
  next
    case False
    then have "xs @ [x] = (xs @ [x]) @ [] \<and> list_all isDigit [] \<and> (xs @ [x] = [] \<or> \<not> isDigit (last (xs @ [x])))"
      by simp
    then show ?thesis by blast
  qed
qed

lemma insertSign_idem:
  assumes "sign \<noteq> []" "\<not> isDigit (last sign)"
  shows "insertSign sign (insertSign sign xs) = insertSign sign xs"
proof -
  obtain pre ds where d: "xs = pre @ ds" "list_all isDigit ds" "pre = [] \<or> \<not> isDigit (last pre)"
    using digit_suffix by blast
  have one: "insertSign sign xs = pre @ group3 sign ds"
    using d insertSign_decomp by simp
  show ?thesis
  proof (cases "length ds \<le> 3")
    case True
    then have "group3 sign ds = ds" by (simp add: group3.simps)
    with one d show ?thesis by simp
  next
    case False
    define g where "g = group3 sign (take (length ds - 3) ds)"
    define ys where "ys = drop (length ds - 3) ds"
    have ly: "length ys \<le> 3" using False by (simp add: ys_def)
    have "group3 sign ds = g @ sign @ ys"
      using False by (subst group3.simps) (simp add: g_def ys_def)
    with one have two: "insertSign sign xs = (pre @ g @ butlast sign) @ last sign # ys"
      using assms(1) by simp
    have "insertSign sign ((pre @ g @ butlast sign) @ last sign # ys)
        = (pre @ g @ butlast sign) @ last sign # insertSign sign ys"
      using assms(2) by (rule insertSign_prefix)
    with two ly show ?thesis by (simp add: insertSign_short)
  qed
qed

lemma set_insertSign: "set (insertSign sign xs) \<subseteq> set xs \<union> set sign"
  by (induction xs) auto

lemma split_no_sep: "x \<in> set (split d xs) \<Longrightarrow> d \<notin> set x"
proof (induction xs arbitrary: x)
  case Nil
  then show ?case by simp
next
  case (Cons c cs)
  then show ?case
    by (cases "split d cs") (auto split: if_splits)
qed

lemma split_nonempty: "split d xs \<noteq> []"
  by (induction xs) (auto split: list.splits)

lemma split_one: "d \<notin> set a \<Longrightarrow> split d a = [a]"
  by (induction a) auto

lemma split_two: "d \<notin> set a \<Longrightarrow> d \<notin> set b \<Longrightarrow> split d (a @ d # b) = [a, b]"
  by (induction a) (auto simp: split_one)

lemma seg_no_dot: "46 \<notin> set (seg (split 46 xs) i)"
  by (auto simp: seg_def str_def dest: split_no_sep [OF nth_mem])

text \<open>
  Claim C7, as the code has it. Re-applying \<open>formatThousands\<close> to its own output with
  the same separator changes nothing, provided the separator is empty, or contains no
  decimal point and does not end in a digit.
\<close>

theorem formatThousands_idempotent:
  assumes "sign = [] \<or> (46 \<notin> set sign \<and> \<not> isDigit (last sign))"
  shows "formatThousands (S (formatThousands v sign)) sign = formatThousands v sign"
proof (cases "sign = []")
  case True
  then show ?thesis by (simp add: formatThousands_def template_def)
next
  case False
  with assms have nd: "46 \<notin> set sign" and ld: "\<not> isDigit (last sign)" by simp_all
  note idem = insertSign_idem [OF False ld]
  show ?thesis
  proof (cases "46 \<in> set (template v)")
    case True
    define a0 where "a0 = seg (split 46 (template v)) 0"
    define a1 where "a1 = seg (split 46 (template v)) 1"
    have out: "formatThousands v sign = insertSign sign a0 @ 46 # a1"
      using True False by (simp add: formatThousands_def a0_def a1_def Let_def)
    have n0: "46 \<notin> set (insertSign sign a0)"
      using set_insertSign [of sign a0] nd seg_no_dot [of "template v" 0] by (auto simp: a0_def)
    have n1: "46 \<notin> set a1" using seg_no_dot [of "template v" 1] by (simp add: a1_def)
    have sp: "split 46 (insertSign sign a0 @ 46 # a1) = [insertSign sign a0, a1]"
      using n0 n1 by (rule split_two)
    show ?thesis
      using False idem by (simp add: out) (simp add: formatThousands_def template_def sp seg_def Let_def)
  next
    case False2: False
    have out: "formatThousands v sign = insertSign sign (template v)"
      using False2 False by (simp add: formatThousands_def Let_def)
    have "46 \<notin> set (insertSign sign (template v))"
      using set_insertSign [of sign "template v"] nd False2 by auto
    then show ?thesis
      using False idem by (simp add: out) (simp add: formatThousands_def template_def Let_def)
  qed
qed

text \<open>
  Claim C7 as stated fails for a separator that is a decimal point: the second pass
  splits the grouped digits on the separator and keeps only the first two segments.
\<close>

theorem formatThousands_idempotent_counterexample:
  "formatThousands (N (Fin False 1234567 0)) (str ''.'') = str ''1.234.567'' \<and>
   formatThousands (S (formatThousands (N (Fin False 1234567 0)) (str ''.''))) (str ''.'')
     = str ''1.234'' \<and>
   formatThousands (S (formatThousands (N (Fin False 1234567 0)) (str ''.''))) (str ''.'')
     \<noteq> formatThousands (N (Fin False 1234567 0)) (str ''.'')"
  by (simp add: js_eval)

theorem formatThousands_idempotent_witness:
  "formatThousands (N (Fin False 1234567 0)) (str '','') = str ''1,234,567'' \<and>
   formatThousands (S (formatThousands (N (Fin False 1234567 0)) (str '',''))) (str '','')
     = str ''1,234,567''"
proof -
  have h: "str '','' = [] \<or> (46 \<notin> set (str '','') \<and> \<not> isDigit (last (str '','')))"
    by (simp add: str_def isDigit_def)
  have e: "formatThousands (N (Fin False 1234567 0)) (str '','') = str ''1,234,567''"
    by (simp add: js_eval)
  from formatThousands_idempotent [OF h, of "N (Fin False 1234567 0)"] e
  show ?thesis by simp
qed

text \<open>
  Claim C6, as the code has it. With an empty separator the stringified value is
  returned unchanged. Otherwise, when the stringified value holds at most one decimal
  point, the digits that end its integer part are grouped in threes from the right, an
  integer part's leading characters (a sign) and the fractional part are kept as they
  are, and the decimal point is put back between them.
\<close>

theorem formatThousands_groups:
  "formatThousands v [] = template v \<and>
   (\<forall>sign pre ds. sign \<noteq> [] \<and> template v = pre @ ds \<and> 46 \<notin> set pre \<and>
      list_all isDigit ds \<and> (pre = [] \<or> \<not> isDigit (last pre))
      \<longrightarrow> formatThousands v sign = pre @ group3 sign ds) \<and>
   (\<forall>sign pre ds fp. sign \<noteq> [] \<and> template v = pre @ ds @ [46] @ fp \<and> 46 \<notin> set pre \<and>
      46 \<notin> set fp \<and> list_all isDigit ds \<and> (pre = [] \<or> \<not> isDigit (last pre))
      \<longrightarrow> formatThousands v sign = pre @ group3 sign ds @ [46] @ fp)"
proof (intro conjI allI impI)
  show "formatThousands v [] = template v"
    by (simp add: formatThousands_def)
next
  fix sign pre ds :: jsstring
  assume a: "sign \<noteq> [] \<and> template v = pre @ ds \<and> 46 \<notin> set pre \<and>
      list_all isDigit ds \<and> (pre = [] \<or> \<not> isDigit (last pre))"
  then have "46 \<notin> set ds" by (auto simp: list_all_iff isDigit_def)
  with a have "46 \<notin> set (template v)" by simp
  with a show "formatThousands v sign = pre @ group3 sign ds"
    by (simp add: formatThousands_def insertSign_decomp)
next
  fix sign pre ds fp :: jsstring
  assume a: "sign \<noteq> [] \<and> template v = pre @ ds @ [46] @ fp \<and> 46 \<notin> set pre \<and>
      46 \<notin> set fp \<and> list_all isDigit ds \<and> (pre = [] \<or> \<not> isDigit (last pre))"
  then have "46 \<notin> set ds" by (auto simp: list_all_iff isDigit_def)
  with a have "46 \<notin> set (pre @ ds)" by simp
  then have "split 46 ((pre @ ds) @ 46 # fp) = [pre @ ds, fp]"
    using a by (intro split_two) simp_all
  with a show "formatThousands v sign = pre @ group3 sign ds @ [46] @ fp"
    by (simp add: formatThousands_def seg_def insertSign_decomp)
qed

theorem formatThousands_groups_witness:
  "formatThousands (N (Fin False 1234567 0)) (str '','') = str ''1,234,567'' \<and>
   formatThousands (N (Fin False 12345678 (- 4))) (str '','') = str ''1,234.5678'' \<and>
   formatThousands (N (Fin True 1234567 0)) (str '','') = str ''-1,234,567'' \<and>
   formatThousands (N (Fin False 1234567 0)) [] = str ''1234567''"
proof -
  note g0 = formatThousands_groups [THEN conjunct1]
  note g1 = formatThousands_groups [THEN conjunct2, THEN conjunct1, rule_format]
  note g2 = formatThousands_groups [THEN conjunct2, THEN conjunct2, rule_format]
  have t1: "template (N (Fin False 1234567 0)) = str ''1234567''"
    and t2: "template (N (Fin False 12345678 (- 4))) = str ''1234'' @ [46] @ str ''5678''"
    and t3: "template (N (Fin True 1234567 0)) = str ''-'' @ str ''1234567''"
    by (simp_all add: js_eval)
  have d: "list_all isDigit (str ''1234567'')" "list_all isDigit (str ''1234'')"
    "46 \<notin> set (str ''5678'')" "\<not> isDigit (last (str ''-''))" "46 \<notin> set (str ''-'')"
    "str '','' \<noteq> []"
    by (simp_all add: str_def isDigit_def)
  have e1: "group3 (str '','') (str ''1234567'') = str ''1,234,567''"
    and e2: "group3 (str '','') (str ''1234'') = str ''1,234''"
    by (simp_all add: js_eval)
  have "formatThousands (N (Fin False 1234567 0)) (str '','') = [] @ group3 (str '','') (str ''1234567'')"
    using t1 d by (intro g1) simp
  moreover have "formatThousands (N (Fin False 12345678 (- 4))) (str '','')
      = [] @ group3 (str '','') (str ''1234'') @ [46] @ str ''5678''"
    using t2 d by (intro g2) simp
  moreover have "formatThousands (N (Fin True 1234567 0)) (str '','')
      = str ''-'' @ group3 (str '','') (str ''1234567'')"
    using t3 d by (intro g1) simp
  moreover have "formatThousands (N (Fin False 1234567 0)) [] = template (N (Fin False 1234567 0))"
    by (rule g0)
  ultimately show ?thesis
    using e1 e2 t1 by (simp add: str_def)
qed

text \<open>
  Claim C6 as stated (split on the first decimal point, put the whole fractional part
  back) fails for a string with two decimal points: \<open>split\<close> cuts at every point and only
  the segment between the first two is put back.
\<close>

theorem formatThousands_groups_counterexample:
  "template (S (str ''1.2.3'')) = str ''1'' @ [46] @ str ''2.3'' \<and>
   46 \<notin> set (str ''1'') \<and>
   formatThousands (S (str ''1.2.3'')) (str '','') = str ''1.2'' \<and>
   formatThousands (S (str ''1.2.3'')) (str '','') \<noteq> insertSign (str '','') (str ''1'') @ [46] @ str ''2.3''"
  by (simp add: js_eval)

section \<open>Properties of formatFoldDecimal\<close>

lemmas fold_eval = js_eval formatFoldDecimal_def formatFoldDecimalForCurlyBracket_def
  formatFoldDecimalForSubscript_def foldRegExp_def quantifierMin_def natOfDigits_def
  lineTerminator_def subscriptNumbers_def Let_def

lemma matchEnd_AtLeast:
  "matchEnd (AtLeast n a # ps) s \<longleftrightarrow>
     (\<exists>xs rest. s = xs @ rest \<and> n \<le> length xs \<and> list_all (atomOk a) xs \<and> matchEnd ps rest)"
proof (induction s arbitrary: n)
  case Nil
  then show ?case by auto
next
  case (Cons c cs)
  show ?case
  proof
    assume "matchEnd (AtLeast n a # ps) (c # cs)"
    then consider (step) "atomOk a c" "matchEnd (AtLeast (n - 1) a # ps) cs"
      | (stop) "n = 0" "matchEnd ps (c # cs)"
      by auto
    then show "\<exists>xs rest. c # cs = xs @ rest \<and> n \<le> length xs \<and> list_all (atomOk a) xs \<and> matchEnd ps rest"
    proof cases
      case step
      then obtain xs rest where "cs = xs @ rest" "n - 1 \<le> length xs" "list_all (atomOk a) xs"
        "matchEnd ps rest"
        using Cons.IH by blast
      with step have "c # cs = (c # xs) @ rest \<and> n \<le> length (c # xs) \<and>
        list_all (atomOk a) (c # xs) \<and> matchEnd ps rest"
        by auto
      then show ?thesis by blast
    next
      case stop
      then have "c # cs = [] @ (c # cs) \<and> n \<le> length ([] :: nat list) \<and>
        list_all (atomOk a) [] \<and> matchEnd ps (c # cs)"
        by simp
      then show ?thesis by blast
    qed
  next
    assume "\<exists>xs rest. c # cs = xs @ rest \<and> n \<le> length xs \<and> list_all (atomOk a) xs \<and> matchEnd ps rest"
    then obtain xs rest where x: "c # cs = xs @ rest" "n \<le> length xs" "list_all (atomOk a) xs"
      "matchEnd ps rest"
      by blast
    show "matchEnd (AtLeast n a # ps) (c # cs)"
    proof (cases xs)
      case Nil
      with x have "n = 0" "matchEnd ps (c # cs)" by simp_all
      then show ?thesis by simp
    next
      case (Cons y ys)
      with x have "cs = ys @ rest \<and> n - 1 \<le> length ys \<and> list_all (atomOk a) ys \<and> matchEnd ps rest"
        and "atomOk a c"
        by auto
      then show ?thesis using Cons.IH by auto
    qed
  qed
qed

lemma all_zero_replicate: "list_all (atomOk (Lit 48)) xs \<longleftrightarrow> xs = replicate (length xs) 48"
  by (induction xs) auto

lemma all_digit_range: "list_all (atomOk (CharRange 48 57)) xs \<longleftrightarrow> list_all isDigit xs"
  by (induction xs) (auto simp: isDigit_def)

lemma matchEnd_fold:
  "matchEnd [One (Lit 46), AtLeast t (Lit 48), One (CharRange 49 57), AtLeast 0 (CharRange 48 57)] s
     \<longleftrightarrow> (\<exists>z d ds. s = 46 # replicate z 48 @ d # ds \<and> t \<le> z \<and> 49 \<le> d \<and> d \<le> 57 \<and>
            list_all isDigit ds)"
  (is "?L \<longleftrightarrow> ?R")
proof
  assume ?L
  then obtain cs where s: "s = 46 # cs"
    and m: "matchEnd [AtLeast t (Lit 48), One (CharRange 49 57), AtLeast 0 (CharRange 48 57)] cs"
    by (cases s) auto
  from m obtain xs rest where x: "cs = xs @ rest" "t \<le> length xs" "list_all (atomOk (Lit 48)) xs"
    "matchEnd [One (CharRange 49 57), AtLeast 0 (CharRange 48 57)] rest"
    unfolding matchEnd_AtLeast by blast
  from x(4) obtain d ds where r: "rest = d # ds" "49 \<le> d" "d \<le> 57"
    "matchEnd [AtLeast 0 (CharRange 48 57)] ds"
    by (cases rest) auto
  from r(4) have "list_all isDigit ds"
    unfolding matchEnd_AtLeast by (auto simp: all_digit_range)
  moreover from x(3) have "xs = replicate (length xs) 48" by (simp add: all_zero_replicate)
  ultimately have "s = 46 # replicate (length xs) 48 @ d # ds \<and> t \<le> length xs \<and> 49 \<le> d \<and>
    d \<le> 57 \<and> list_all isDigit ds"
    using s x r by simp
  then show ?R by blast
next
  assume ?R
  then obtain z d ds where r: "s = 46 # replicate z 48 @ d # ds" "t \<le> z" "49 \<le> d" "d \<le> 57"
    "list_all isDigit ds"
    by blast
  have "matchEnd [AtLeast 0 (CharRange 48 57)] ds"
    unfolding matchEnd_AtLeast using r(5) by (auto simp: all_digit_range)
  then have "matchEnd [One (CharRange 49 57), AtLeast 0 (CharRange 48 57)] (d # ds)"
    using r by simp
  then have "matchEnd [AtLeast t (Lit 48), One (CharRange 49 57), AtLeast 0 (CharRange 48 57)]
      (replicate z 48 @ d # ds)"
    unfolding matchEnd_AtLeast [of t]
    using r(2) by (intro exI [of _ "replicate z 48"] exI [of _ "d # ds"]) (simp add: list_all_iff)
  then show ?L using r(1) by simp
qed

lemma regTest_iff: "regTest ps s \<longleftrightarrow> (\<exists>pre suf. s = pre @ suf \<and> matchEnd ps suf)"
proof (induction s)
  case Nil
  then show ?case by simp
next
  case (Cons c cs)
  show ?case
  proof
    assume "regTest ps (c # cs)"
    then consider "matchEnd ps (c # cs)" | "regTest ps cs" by auto
    then show "\<exists>pre suf. c # cs = pre @ suf \<and> matchEnd ps suf"
    proof cases
      case 1
      then have "c # cs = [] @ (c # cs) \<and> matchEnd ps (c # cs)" by simp
      then show ?thesis by blast
    next
      case 2
      then obtain pre suf where "cs = pre @ suf" "matchEnd ps suf" using Cons.IH by blast
      then have "c # cs = (c # pre) @ suf \<and> matchEnd ps suf" by simp
      then show ?thesis by blast
    qed
  next
    assume "\<exists>pre suf. c # cs = pre @ suf \<and> matchEnd ps suf"
    then obtain pre suf where p: "c # cs = pre @ suf" "matchEnd ps suf" by blast
    show "regTest ps (c # cs)"
    proof (cases pre)
      case Nil
      with p have "matchEnd ps (c # cs)" by simp
      then show ?thesis by simp
    next
      case (Cons y ys)
      with p have "cs = ys @ suf" by simp
      with p(2) have "regTest ps cs" using Cons.IH by blast
      then show ?thesis by simp
    qed
  qed
qed

text \<open>When the threshold's text is a run of digits, the pattern accepts exactly the strings
  that end in a decimal point, at least that many zeros, a nonzero digit and digits.\<close>

lemma regTest_fold:
  assumes "quantifierMin (numToString threshold) = Some t"
  shows "regTest (foldRegExp threshold) vl \<longleftrightarrow>
    (\<exists>ip z d ds. vl = ip @ [46] @ replicate z 48 @ d # ds \<and> t \<le> z \<and> 49 \<le> d \<and> d \<le> 57 \<and>
       list_all isDigit ds)"
proof -
  have "foldRegExp threshold =
      [One (Lit 46), AtLeast t (Lit 48), One (CharRange 49 57), AtLeast 0 (CharRange 48 57)]"
    using assms by (simp add: foldRegExp_def)
  then have fr: "regTest (foldRegExp threshold) vl \<longleftrightarrow> (\<exists>pre suf. vl = pre @ suf \<and>
      (\<exists>z d ds. suf = 46 # replicate z 48 @ d # ds \<and> t \<le> z \<and> 49 \<le> d \<and> d \<le> 57 \<and>
            list_all isDigit ds))"
    by (simp only: regTest_iff matchEnd_fold)
  show ?thesis
  proof
    assume "regTest (foldRegExp threshold) vl"
    then obtain pre suf z d ds where "vl = pre @ suf" "suf = 46 # replicate z 48 @ d # ds"
      "t \<le> z" "49 \<le> d" "d \<le> 57" "list_all isDigit ds"
      unfolding fr by blast
    then have "vl = pre @ [46] @ replicate z 48 @ d # ds \<and> t \<le> z \<and> 49 \<le> d \<and> d \<le> 57 \<and>
       list_all isDigit ds"
      by simp
    then show "\<exists>ip z d ds. vl = ip @ [46] @ replicate z 48 @ d # ds \<and> t \<le> z \<and> 49 \<le> d \<and>
       d \<le> 57 \<and> list_all isDigit ds"
      by blast
  next
    assume "\<exists>ip z d ds. vl = ip @ [46] @ replicate z 48 @ d # ds \<and> t \<le> z \<and> 49 \<le> d \<and>
       d \<le> 57 \<and> list_all isDigit ds"
    then obtain ip z d ds where "vl = ip @ [46] @ replicate z 48 @ d # ds" "t \<le> z" "49 \<le> d"
      "d \<le> 57" "list_all isDigit ds"
      by blast
    then have "vl = ip @ (46 # replicate z 48 @ d # ds) \<and>
      (\<exists>z' d' ds'. 46 # replicate z 48 @ d # ds = 46 # replicate z' 48 @ d' # ds' \<and> t \<le> z' \<and>
         49 \<le> d' \<and> d' \<le> 57 \<and> list_all isDigit ds')"
      by auto
    then show "regTest (foldRegExp threshold) vl"
      unfolding fr by blast
  qed
qed

lemma split_append: "split d (a @ d # b) = split d a @ split d b"
proof (induction a)
  case Nil
  then show ?case by simp
next
  case (Cons c a)
  then show ?case
    using split_nonempty [of d a] by (cases "split d a") auto
qed

lemma join_Cons: "join d ((c # x) # xs) = c # join d (x # xs)"
  by (cases xs) auto

lemma join_split: "join d (split d a) = a"
proof (induction a)
  case Nil
  then show ?case by simp
next
  case (Cons c a)
  then show ?case
    using split_nonempty [of d a] by (cases "split d a") (auto simp: join_Cons)
qed

lemma join_snoc: "xs \<noteq> [] \<Longrightarrow> join d (xs @ [y]) = join d xs @ d # y"
proof (induction xs)
  case Nil
  then show ?case by simp
next
  case (Cons x xs)
  then show ?case by (cases xs) auto
qed

lemma getSubstitution_plain: "36 \<notin> set r \<Longrightarrow> getSubstitution m p s r = r"
  by (induction m p s r rule: getSubstitution.induct) auto

lemma takeWhile_zeros:
  "d \<noteq> 48 \<Longrightarrow> takeWhile (\<lambda>c. c = 48) (replicate z 48 @ d # ds) = replicate z 48"
  by (induction z) auto

text \<open>The fold itself, on a string of the accepted shape.\<close>

lemma formatFoldDecimal_fold:
  assumes q: "quantifierMin (numToString threshold) = Some t"
    and vl: "template val = ip @ [46] @ replicate z 48 @ d # ds"
    and z: "t \<le> z" and d: "49 \<le> d" "d \<le> 57" and ds: "list_all isDigit ds"
    and f: "36 \<notin> set (format z)"
  shows "formatFoldDecimal val threshold format = ip @ [46] @ [48] @ format z @ d # ds"
proof -
  define fr where "fr = replicate z 48 @ d # ds"
  have nodot: "46 \<notin> set fr"
    using d ds by (auto simp: fr_def list_all_iff isDigit_def)
  have t: "regTest (foldRegExp threshold) (template val)"
    unfolding regTest_fold [OF q] using vl z d ds by blast
  have sp: "split 46 (template val) = split 46 ip @ [fr]"
    using vl nodot by (simp add: fr_def [symmetric] split_append split_one)
  have tw: "takeWhile (\<lambda>c. c = 48) fr = replicate z 48"
    unfolding fr_def using d by (intro takeWhile_zeros) simp
  have dr: "drop z fr = d # ds"
    by (simp add: fr_def)
  have sub: "getSubstitution (replicate z 48) [] (d # ds) (48 # format z) = 48 # format z"
    using f by (intro getSubstitution_plain) simp
  have "formatFoldDecimal val threshold format
      = join 46 ((split 46 ip @ [fr])[length (split 46 ip) :=
          getSubstitution (takeWhile (\<lambda>c. c = 48) fr) []
            (drop (length (takeWhile (\<lambda>c. c = 48) fr)) fr)
            (48 # format (length (takeWhile (\<lambda>c. c = 48) fr)))
          @ drop (length (takeWhile (\<lambda>c. c = 48) fr)) fr])"
    using t by (simp add: formatFoldDecimal_def Let_def sp seg_def)
  also have "\<dots> = join 46 (split 46 ip @ [48 # format z @ d # ds])"
    by (simp add: tw dr sub)
  also have "\<dots> = ip @ [46] @ [48] @ format z @ d # ds"
    by (simp add: join_snoc split_nonempty join_split)
  finally show ?thesis .
qed

lemma formatFoldDecimal_keep:
  assumes q: "quantifierMin (numToString threshold) = Some t"
    and n: "\<not> (\<exists>ip z d ds. template val = ip @ [46] @ replicate z 48 @ d # ds \<and> t \<le> z \<and>
       49 \<le> d \<and> d \<le> 57 \<and> list_all isDigit ds)"
  shows "formatFoldDecimal val threshold format = template val"
  using n unfolding regTest_fold [OF q, symmetric] by (simp add: formatFoldDecimal_def)

lemma last_point_unique:
  assumes "a @ 46 # f = a' @ 46 # (f' :: jsstring)" "46 \<notin> set f" "46 \<notin> set f'"
  shows "a = a' \<and> f = f'"
proof -
  have "split 46 (a @ 46 # f) = split 46 a @ [f]" "split 46 (a' @ 46 # f') = split 46 a' @ [f']"
    using assms(2,3) by (simp_all add: split_append split_one)
  with assms(1) have "split 46 a @ [f] = split 46 a' @ [f']" by simp
  then have "f = f'" by simp
  with assms(1) show ?thesis by simp
qed

lemma short_run_no_match:
  assumes vl: "vl = ip @ [46] @ replicate z 48 @ (rest :: jsstring)" "46 \<notin> set rest" "rest = [] \<or> hd rest \<noteq> 48"
    and z: "z < t"
  shows "\<not> (\<exists>ip' z' d ds. vl = ip' @ [46] @ replicate z' 48 @ d # ds \<and> t \<le> z' \<and>
       49 \<le> d \<and> d \<le> 57 \<and> list_all isDigit ds)"
proof
  assume "\<exists>ip' z' d ds. vl = ip' @ [46] @ replicate z' 48 @ d # ds \<and> t \<le> z' \<and>
       49 \<le> d \<and> d \<le> 57 \<and> list_all isDigit ds"
  then obtain ip' z' d ds where o: "vl = ip' @ [46] @ replicate z' 48 @ d # ds" "t \<le> z'"
    "49 \<le> d" "d \<le> 57" "list_all isDigit ds"
    by blast
  have "46 \<notin> set (replicate z' 48 @ d # ds)"
    using o by (auto simp: list_all_iff isDigit_def)
  moreover have "46 \<notin> set (replicate z 48 @ rest)" using vl by auto
  moreover have "ip @ 46 # (replicate z 48 @ rest) = ip' @ 46 # (replicate z' 48 @ d # ds)"
    using vl(1) o(1) by simp
  ultimately have eq: "replicate z 48 @ rest = replicate z' 48 @ d # ds"
    using last_point_unique by blast
  have "takeWhile (\<lambda>c. c = 48) (replicate z 48 @ rest) = replicate z 48"
    using vl(3) by (induction z) (auto simp: takeWhile_eq_Nil_iff)
  moreover have "takeWhile (\<lambda>c. c = 48) (replicate z' 48 @ d # ds) = replicate z' 48"
    using o(3) by (intro takeWhile_zeros) simp
  ultimately have "replicate z (48::nat) = replicate z' 48" using eq by simp
  then have "z = z'" by (metis length_replicate)
  with z o(2) show False by simp
qed
text \<open>
  Claim C5, as the code has it, for a threshold whose text is a run of digits (every
  natural number below \<open>10^21\<close> is one) and a rendered count that holds no dollar sign. If the
  stringified value ends in a decimal point, at least \<open>t\<close> zeros, a nonzero digit and
  digits, the zero run is replaced by \<open>0\<close> and the rendered count of its length, and
  all the rest is kept; otherwise the stringified value is returned unchanged.
\<close>

theorem formatFoldDecimal_zero_run:
  assumes "quantifierMin (numToString threshold) = Some t"
  shows "(\<forall>ip z d ds. template val = ip @ [46] @ replicate z 48 @ d # ds \<and> t \<le> z \<and>
            49 \<le> d \<and> d \<le> 57 \<and> list_all isDigit ds \<and> 36 \<notin> set (format z)
          \<longrightarrow> formatFoldDecimal val threshold format = ip @ [46] @ [48] @ format z @ d # ds) \<and>
         (\<not> (\<exists>ip z d ds. template val = ip @ [46] @ replicate z 48 @ d # ds \<and> t \<le> z \<and>
            49 \<le> d \<and> d \<le> 57 \<and> list_all isDigit ds)
          \<longrightarrow> formatFoldDecimal val threshold format = template val) \<and>
         (\<forall>n<10 ^ 21. quantifierMin (numToString (Fin False n 0)) = Some n)"
  using formatFoldDecimal_fold [OF assms] formatFoldDecimal_keep [OF assms] quantifierMin_nat
  by blast

theorem formatFoldDecimal_zero_run_witness:
  "formatFoldDecimal (S (str ''0.0000000123'')) (Fin False 4 0)
      (\<lambda>count. [123] @ numToString (Fin False count 0) @ [125]) = str ''0.0{7}123'' \<and>
   formatFoldDecimal (S (str ''12.00123'')) (Fin False 4 0)
      (\<lambda>count. [123] @ numToString (Fin False count 0) @ [125]) = str ''12.00123''"
proof -
  let ?f = "\<lambda>count. [123] @ numToString (Fin False count 0) @ [125]"
  have q: "quantifierMin (numToString (Fin False 4 0)) = Some 4"
    by (simp add: fold_eval)
  note fold = formatFoldDecimal_zero_run [OF q, THEN conjunct1, rule_format]
  note keep = formatFoldDecimal_zero_run [OF q, THEN conjunct2, THEN conjunct1, rule_format]
  have "template (S (str ''0.0000000123'')) = str ''0'' @ [46] @ replicate 7 48 @ 49 # str ''23'' \<and>
      (4::nat) \<le> 7 \<and> (49::nat) \<le> 49 \<and> (49::nat) \<le> 57 \<and> list_all isDigit (str ''23'') \<and>
      36 \<notin> set (?f 7)"
    by (simp add: fold_eval)
  then have "formatFoldDecimal (S (str ''0.0000000123'')) (Fin False 4 0) ?f
      = str ''0'' @ [46] @ [48] @ ?f 7 @ 49 # str ''23''"
    by (rule fold)
  moreover have "\<not> (\<exists>ip z d ds. template (S (str ''12.00123'')) = ip @ [46] @ replicate z 48 @ d # ds \<and>
      4 \<le> z \<and> 49 \<le> d \<and> d \<le> 57 \<and> list_all isDigit ds)"
    by (rule short_run_no_match [where ip = "str ''12''" and z = 2 and rest = "str ''123''"])
      (simp_all add: fold_eval)
  then have "formatFoldDecimal (S (str ''12.00123'')) (Fin False 4 0) ?f = template (S (str ''12.00123''))"
    by (rule keep)
  ultimately show ?thesis
    by (simp add: fold_eval)
qed

text \<open>
  Claim C5 as stated fails for a rendered count with a dollar sign, which
  \<open>replace\<close> reads as a replacement pattern (\<open>$&\<close> is the matched zero run), and for a
  threshold that is not a non-negative integer, whose text makes the braces of the
  pattern literal characters.
\<close>

theorem formatFoldDecimal_zero_run_counterexample:
  "formatFoldDecimal (S (str ''0.00001'')) (Fin False 4 0) (\<lambda>count. str ''$&'') = str ''0.000001'' \<and>
   formatFoldDecimal (S (str ''0.00001'')) (Fin False 4 0) (\<lambda>count. str ''$&'') \<noteq> str ''0.0$&1'' \<and>
   formatFoldDecimalForCurlyBracket (S (str ''1.5'')) (Fin True 1 0) = str ''1.5'' \<and>
   formatFoldDecimalForCurlyBracket (S (str ''1.5'')) (Fin True 1 0) \<noteq> str ''1.0{0}5''"
  by (simp add: fold_eval)

text \<open>
  Claim C2, as the code has it. The string \<open>0.0000000123\<close> folds to \<open>0.0{7}123\<close> and to
  \<open>0.0\<close>, subscript seven, \<open>123\<close>: one zero stays before the count. A value whose
  zero run after the last decimal point is shorter than the threshold is returned
  unchanged by both policies.
\<close>

theorem foldDecimal_policies:
  "formatFoldDecimalForCurlyBracket (S (str ''0.0000000123'')) (Fin False 4 0) = str ''0.0{7}123'' \<and>
   formatFoldDecimalForSubscript (S (str ''0.0000000123'')) (Fin False 4 0)
     = str ''0.0'' @ [8327] @ str ''123'' \<and>
   (\<forall>val threshold t ip z rest.
      quantifierMin (numToString threshold) = Some t \<and>
      template val = ip @ [46] @ replicate z 48 @ rest \<and> 46 \<notin> set rest \<and>
      (rest = [] \<or> hd rest \<noteq> 48) \<and> z < t
      \<longrightarrow> formatFoldDecimalForCurlyBracket val threshold = template val \<and>
          formatFoldDecimalForSubscript val threshold = template val)"
proof (intro conjI allI impI)
  show "formatFoldDecimalForCurlyBracket (S (str ''0.0000000123'')) (Fin False 4 0) = str ''0.0{7}123''"
    by (simp add: fold_eval)
  show "formatFoldDecimalForSubscript (S (str ''0.0000000123'')) (Fin False 4 0)
     = str ''0.0'' @ [8327] @ str ''123''"
    by (simp add: fold_eval)
next
  fix val threshold t and ip rest :: jsstring and z
  assume a: "quantifierMin (numToString threshold) = Some t \<and>
      template val = ip @ [46] @ replicate z 48 @ rest \<and> 46 \<notin> set rest \<and>
      (rest = [] \<or> hd rest \<noteq> 48) \<and> z < t"
  then have n: "\<not> (\<exists>ip' z' d ds. template val = ip' @ [46] @ replicate z' 48 @ d # ds \<and> t \<le> z' \<and>
       49 \<le> d \<and> d \<le> 57 \<and> list_all isDigit ds)"
    by (intro short_run_no_match [where ip = ip and z = z and rest = rest]) simp_all
  from a have q: "quantifierMin (numToString threshold) = Some t" by simp
  show "formatFoldDecimalForCurlyBracket val threshold = template val"
    unfolding formatFoldDecimalForCurlyBracket_def by (rule formatFoldDecimal_keep [OF q n])
  show "formatFoldDecimalForSubscript val threshold = template val"
    unfolding formatFoldDecimalForSubscript_def by (rule formatFoldDecimal_keep [OF q n])
qed

theorem foldDecimal_policies_witness:
  "formatFoldDecimalForCurlyBracket (N (Fin False 123 (- 5))) (Fin False 4 0) = str ''0.00123'' \<and>
   formatFoldDecimalForSubscript (N (Fin False 123 (- 5))) (Fin False 4 0) = str ''0.00123''"
proof -
  note keep = foldDecimal_policies [THEN conjunct2, THEN conjunct2, rule_format]
  have "quantifierMin (numToString (Fin False 4 0)) = Some 4 \<and>
      template (N (Fin False 123 (- 5))) = str ''0'' @ [46] @ replicate 2 48 @ str ''123'' \<and>
      46 \<notin> set (str ''123'') \<and> (str ''123'' = [] \<or> hd (str ''123'') \<noteq> 48) \<and> (2::nat) < 4"
    by (simp add: fold_eval)
  then have "formatFoldDecimalForCurlyBracket (N (Fin False 123 (- 5))) (Fin False 4 0)
       = template (N (Fin False 123 (- 5))) \<and>
     formatFoldDecimalForSubscript (N (Fin False 123 (- 5))) (Fin False 4 0)
       = template (N (Fin False 123 (- 5)))"
    by (rule keep)
  then show ?thesis by (simp add: fold_eval)
qed

text \<open>
  Claim C2 as stated fails twice over. The number \<open>0.0000000123\<close> is stringified in
  exponent notation, which the pattern does not accept, so it comes back as
  \<open>1.23e-8\<close>; and the string \<open>0.0000000123\<close> folds with a zero before the count.
\<close>

theorem foldDecimal_policies_counterexample:
  "formatFoldDecimalForCurlyBracket (N (Fin False 123 (- 10))) (Fin False 4 0) = str ''1.23e-8'' \<and>
   formatFoldDecimalForCurlyBracket (N (Fin False 123 (- 10))) (Fin False 4 0) \<noteq> str ''0.{7}123'' \<and>
   formatFoldDecimalForSubscript (N (Fin False 123 (- 10))) (Fin False 4 0) = str ''1.23e-8'' \<and>
   formatFoldDecimalForCurlyBracket (S (str ''0.0000000123'')) (Fin False 4 0) \<noteq> str ''0.{7}123'' \<and>
   formatFoldDecimalForSubscript (S (str ''0.0000000123'')) (Fin False 4 0)
     \<noteq> str ''0.'' @ [8327] @ str ''123''"
  by (simp add: fold_eval)

section \<open>Properties of formatValue\<close>

lemmas value_eval = formatValue_def isValid_def jsGet_def arrayIndex_def natOfDigits_def
  isDigit_def nullish_def stringToPath.simps propStep_def isPropChar_def bracketKey_def
  bracketPlain_def str_def emptyKey_def sepAt_def lineTerminator_def trim_def isWhite_def

lemma propStep_bare:
  assumes "k \<noteq> []" "list_all isPropChar k" "rest = [] \<or> \<not> isPropChar (hd rest)"
  shows "propStep (k @ rest) = (Some k, rest)"
proof -
  obtain c cs where k: "k = c # cs" using assms(1) by (cases k) auto
  have tw: "takeWhile isPropChar (k @ rest) = k"
    using assms(2,3) by (cases rest) (auto simp: list_all_iff takeWhile_append2)
  have dw: "dropWhile isPropChar (k @ rest) = rest"
    using assms(2,3) by (cases rest) (auto simp: list_all_iff dropWhile_append2)
  have "isPropChar c" using assms(2) k by simp
  then show ?thesis
    using tw dw by (simp add: propStep_def k)
qed

lemma propStep_point:
  assumes "r \<noteq> []" "isPropChar (hd r)"
  shows "propStep (46 # r) = (None, r)"
  using assms by (cases r) (auto simp: propStep_def isPropChar_def emptyKey_def sepAt_def)

lemma hd_join: "y \<noteq> [] \<Longrightarrow> join d (y # ys) \<noteq> [] \<and> hd (join d (y # ys)) = hd y"
  by (cases ys) auto

text \<open>A dotted path of bare keys is tokenized into its keys.\<close>

lemma stringToPath_dotted:
  "\<forall>k\<in>set ks. k \<noteq> [] \<and> list_all isPropChar k \<Longrightarrow> stringToPath (join 46 ks) = ks"
proof (induction ks rule: induct_list012)
  case 1
  then show ?case by (simp add: stringToPath.simps)
next
  case (2 x)
  then have "propStep (x @ []) = (Some x, [])"
    by (intro propStep_bare) simp_all
  with 2 show ?case
    by (simp add: stringToPath.simps [of x] stringToPath.simps [of "[]"])
next
  case (3 x y ys)
  let ?J = "join 46 (y # ys)"
  from "3.prems" have x: "x \<noteq> []" "list_all isPropChar x" and y: "y \<noteq> []" "list_all isPropChar y"
    by simp_all
  have J: "?J \<noteq> []" "isPropChar (hd ?J)"
    using hd_join [OF y(1), of 46 ys] y by (cases y; simp)+
  have s1: "propStep (x @ 46 # ?J) = (Some x, 46 # ?J)"
    using x by (intro propStep_bare) (simp_all add: isPropChar_def)
  have s2: "propStep (46 # ?J) = (None, ?J)"
    using J by (rule propStep_point)
  have "stringToPath (x @ 46 # ?J) = x # stringToPath ?J"
    using x s1 s2 by (simp add: stringToPath.simps [of "x @ 46 # ?J"] stringToPath.simps [of "46 # ?J"])
  moreover have "stringToPath ?J = y # ys"
    using 3 by simp
  ultimately show ?case by simp
qed

lemma all_le_Suc: "(\<forall>i\<le>Suc n. P i) \<longleftrightarrow> P 0 \<and> (\<forall>j\<le>n. P (Suc j))"
  by (metis le_SucE le_Suc_eq not0_implies_Suc Suc_le_mono zero_le)

text \<open>The walk is sequential member access as long as every value met is valid.\<close>

lemma walk_valid:
  "isValid (walk v ks) \<longleftrightarrow> (\<forall>i\<le>length ks. isValid (foldl jsGet v (take i ks)))"
proof (induction ks arbitrary: v)
  case Nil
  then show ?case by simp
next
  case (Cons k ks)
  show ?case
    by (auto simp: all_le_Suc Cons.IH)
qed

lemma walk_foldl:
  "\<forall>i\<le>length ks. isValid (foldl jsGet v (take i ks)) \<Longrightarrow> walk v ks = foldl jsGet v ks"
proof (induction ks arbitrary: v)
  case Nil
  then show ?case by simp
next
  case (Cons k ks)
  then have "isValid v" and "\<forall>j\<le>length ks. isValid (foldl jsGet (jsGet v k) (take j ks))"
    by (simp_all add: all_le_Suc)
  with Cons.IH show ?case by simp
qed

lemma formatValue_path:
  "formatValue data key dflt =
     (if \<forall>i\<le>length (stringToPath key). isValid (foldl jsGet data (take i (stringToPath key)))
      then foldl jsGet data (stringToPath key) else nullish dflt (Str (str ''--'')))"
proof -
  define P where "P \<longleftrightarrow>
    (\<forall>i\<le>length (stringToPath key). isValid (foldl jsGet data (take i (stringToPath key))))"
  have wv: "isValid (walk data (stringToPath key)) \<longleftrightarrow> P"
    unfolding P_def by (rule walk_valid)
  have wf: "P \<Longrightarrow> walk data (stringToPath key) = foldl jsGet data (stringToPath key)"
    unfolding P_def by (rule walk_foldl)
  have d: "P \<Longrightarrow> isValid data"
    unfolding P_def by (metis foldl_Nil take_0 zero_le)
  have "formatValue data key dflt =
     (if P then foldl jsGet data (stringToPath key) else nullish dflt (Str (str ''--'')))"
    using wv wf d by (cases P) (simp_all add: formatValue_def Let_def)
  then show ?thesis unfolding P_def .
qed

lemma path_abc: "stringToPath (str ''a.b.c'') = [str ''a'', str ''b'', str ''c'']"
  and path_quote1: "stringToPath (str ''a['b']'') = [str ''a'', str ''b'']"
  and path_quote2: "stringToPath (str ''a[\"b.c\"]'') = [str ''a'', str ''b.c'']"
  by (simp_all add: value_eval)

lemma valid3:
  "(\<forall>i\<le>length [a, b, c]. isValid (foldl jsGet v (take i [a, b, c]))) \<longleftrightarrow>
     isValid v \<and> isValid (jsGet v a) \<and> isValid (jsGet (jsGet v a) b) \<and>
     isValid (jsGet (jsGet (jsGet v a) b) c)"
  by (simp add: all_le_Suc)

lemma valid2:
  "(\<forall>i\<le>length [a, b]. isValid (foldl jsGet v (take i [a, b]))) \<longleftrightarrow>
     isValid v \<and> isValid (jsGet v a) \<and> isValid (jsGet (jsGet v a) b)"
  by (simp add: all_le_Suc)

text \<open>
  Claim C1, as the code has it. For a dotted path of bare keys, and for the quoted
  bracket paths of the claim, the result is the value of sequential member access when
  the data, every intermediate value and the final value are valid; otherwise it is
  the default, or \<open>--\<close> when the default is null or undefined (left out).
\<close>

theorem formatValue_resolves:
  "(\<forall>ks. (\<forall>k\<in>set ks. k \<noteq> [] \<and> list_all isPropChar k) \<longrightarrow>
      formatValue data (join 46 ks) dflt =
        (if \<forall>i\<le>length ks. isValid (foldl jsGet data (take i ks)) then foldl jsGet data ks
         else if isValid dflt then dflt else Str (str ''--''))) \<and>
   formatValue data (str ''a.b.c'') dflt =
     (if isValid data \<and> isValid (jsGet data (str ''a'')) \<and>
         isValid (jsGet (jsGet data (str ''a'')) (str ''b'')) \<and>
         isValid (jsGet (jsGet (jsGet data (str ''a'')) (str ''b'')) (str ''c''))
      then jsGet (jsGet (jsGet data (str ''a'')) (str ''b'')) (str ''c'')
      else if isValid dflt then dflt else Str (str ''--'')) \<and>
   formatValue data (str ''a['b']'') dflt =
     (if isValid data \<and> isValid (jsGet data (str ''a'')) \<and>
         isValid (jsGet (jsGet data (str ''a'')) (str ''b''))
      then jsGet (jsGet data (str ''a'')) (str ''b'')
      else if isValid dflt then dflt else Str (str ''--'')) \<and>
   formatValue data (str ''a[\"b.c\"]'') dflt =
     (if isValid data \<and> isValid (jsGet data (str ''a'')) \<and>
         isValid (jsGet (jsGet data (str ''a'')) (str ''b.c''))
      then jsGet (jsGet data (str ''a'')) (str ''b.c'')
      else if isValid dflt then dflt else Str (str ''--''))"
proof -
  have n: "nullish dflt (Str (str ''--'')) = (if isValid dflt then dflt else Str (str ''--''))"
    by (simp add: nullish_def isValid_def)
  have "formatValue data (join 46 ks) dflt =
        (if \<forall>i\<le>length ks. isValid (foldl jsGet data (take i ks)) then foldl jsGet data ks
         else if isValid dflt then dflt else Str (str ''--''))"
    if "\<forall>k\<in>set ks. k \<noteq> [] \<and> list_all isPropChar k" for ks
    using stringToPath_dotted [OF that] by (simp only: formatValue_path n)
  moreover have "formatValue data (str ''a.b.c'') dflt =
     (if isValid data \<and> isValid (jsGet data (str ''a'')) \<and>
         isValid (jsGet (jsGet data (str ''a'')) (str ''b'')) \<and>
         isValid (jsGet (jsGet (jsGet data (str ''a'')) (str ''b'')) (str ''c''))
      then jsGet (jsGet (jsGet data (str ''a'')) (str ''b'')) (str ''c'')
      else if isValid dflt then dflt else Str (str ''--''))"
    unfolding formatValue_path path_abc n valid3 by simp
  moreover have "formatValue data (str ''a['b']'') dflt =
     (if isValid data \<and> isValid (jsGet data (str ''a'')) \<and>
         isValid (jsGet (jsGet data (str ''a'')) (str ''b''))
      then jsGet (jsGet data (str ''a'')) (str ''b'')
      else if isValid dflt then dflt else Str (str ''--''))"
    unfolding formatValue_path path_quote1 n valid2 by simp
  moreover have "formatValue data (str ''a[\"b.c\"]'') dflt =
     (if isValid data \<and> isValid (jsGet data (str ''a'')) \<and>
         isValid (jsGet (jsGet data (str ''a'')) (str ''b.c''))
      then jsGet (jsGet data (str ''a'')) (str ''b.c'')
      else if isValid dflt then dflt else Str (str ''--''))"
    unfolding formatValue_path path_quote2 n valid2 by simp
  ultimately show ?thesis by blast
qed

theorem formatValue_resolves_witness:
  "formatValue (Obj [(str ''a'', Obj [(str ''b'', Obj [(str ''c'', Num (Fin False 1 0))])])])
      (str ''a.b.c'') Undefined = Num (Fin False 1 0) \<and>
   formatValue (Obj [(str ''a'', Obj [(str ''b'', Num (Fin False 1 0))])]) (str ''a['b']'') Undefined
      = Num (Fin False 1 0) \<and>
   formatValue (Obj [(str ''a'', Obj [(str ''b.c'', Num (Fin False 1 0))])]) (str ''a[\"b.c\"]'')
      Undefined = Num (Fin False 1 0) \<and>
   formatValue Null (str ''a.b'') (Str (str ''x'')) = Str (str ''x'') \<and>
   formatValue Null (str ''a.b'') Undefined = Str (str ''--'')"
proof -
  let ?d = "Obj [(str ''a'', Obj [(str ''b'', Obj [(str ''c'', Num (Fin False 1 0))])])]"
  note dotted = formatValue_resolves [THEN conjunct1, THEN spec, THEN mp]
  have k3: "\<forall>k\<in>set [str ''a'', str ''b'', str ''c'']. k \<noteq> [] \<and> list_all isPropChar k"
    and k2: "\<forall>k\<in>set [str ''a'', str ''b'']. k \<noteq> [] \<and> list_all isPropChar k"
    by (simp_all add: str_def isPropChar_def)
  have j3: "join 46 [str ''a'', str ''b'', str ''c''] = str ''a.b.c''"
    and j2: "join 46 [str ''a'', str ''b''] = str ''a.b''"
    by (simp_all add: str_def)
  have "formatValue ?d (str ''a.b.c'') Undefined = Num (Fin False 1 0)"
    using dotted [OF k3, of ?d Undefined] unfolding j3 valid3
    by (simp add: jsGet_def isValid_def str_def)
  moreover have "formatValue Null (str ''a.b'') (Str (str ''x'')) = Str (str ''x'')"
    using dotted [OF k2, of Null "Str (str ''x'')"] unfolding j2 valid2
    by (simp add: jsGet_def isValid_def str_def)
  moreover have "formatValue Null (str ''a.b'') Undefined = Str (str ''--'')"
    using dotted [OF k2, of Null Undefined] unfolding j2 valid2
    by (simp add: jsGet_def isValid_def str_def)
  moreover have "formatValue (Obj [(str ''a'', Obj [(str ''b'', Num (Fin False 1 0))])])
      (str ''a['b']'') Undefined = Num (Fin False 1 0)"
    using formatValue_resolves [THEN conjunct2, THEN conjunct2, THEN conjunct1,
      of "Obj [(str ''a'', Obj [(str ''b'', Num (Fin False 1 0))])]" Undefined]
    by (simp add: jsGet_def isValid_def str_def)
  moreover have "formatValue (Obj [(str ''a'', Obj [(str ''b.c'', Num (Fin False 1 0))])])
      (str ''a[\"b.c\"]'') Undefined = Num (Fin False 1 0)"
    using formatValue_resolves [THEN conjunct2, THEN conjunct2, THEN conjunct2,
      of "Obj [(str ''a'', Obj [(str ''b.c'', Num (Fin False 1 0))])]" Undefined]
    by (simp add: jsGet_def isValid_def str_def)
  ultimately show ?thesis by blast
qed

text \<open>
  Claim C1 as stated fails where every intermediate value is valid and the final one
  is not: the result is the default, not the undefined value of the member access. It
  also fails for a default that is given as null, which is replaced by \<open>--\<close>.
\<close>

theorem formatValue_resolves_counterexample:
  "isValid (Obj [(str ''a'', Obj [(str ''b'', Obj [])])]) \<and>
   isValid (jsGet (Obj [(str ''a'', Obj [(str ''b'', Obj [])])]) (str ''a'')) \<and>
   isValid (jsGet (jsGet (Obj [(str ''a'', Obj [(str ''b'', Obj [])])]) (str ''a'')) (str ''b'')) \<and>
   jsGet (jsGet (jsGet (Obj [(str ''a'', Obj [(str ''b'', Obj [])])]) (str ''a'')) (str ''b''))
     (str ''c'') = Undefined \<and>
   formatValue (Obj [(str ''a'', Obj [(str ''b'', Obj [])])]) (str ''a.b.c'') Undefined
     = Str (str ''--'') \<and>
   formatValue Null (str ''a.b'') Null = Str (str ''--'')"
  by (simp add: value_eval)

section \<open>Properties of formatDateToString\<close>

lemmas date_eval = formatDateToString_def formatDateToDateTime_def setPart_def dateTokens_def
  tokenAt_def dateField_def replaceTokens.simps str_def

lemma tokenAt_token: "tok \<in> set dateTokens \<Longrightarrow> tokenAt (tok @ rest) = Some tok"
  by (auto simp: tokenAt_def dateTokens_def str_def)

lemma replaceTokens_token:
  assumes "tok \<in> set dateTokens"
  shows "replaceTokens date (tok @ rest) = dateField date tok @ replaceTokens date rest"
proof -
  from assms have "tok \<noteq> []" by (auto simp: dateTokens_def str_def)
  then show ?thesis
    using tokenAt_token [OF assms, of rest] by (simp add: replaceTokens.simps [of date "tok @ rest"])
qed

lemma replaceTokens_other:
  assumes "\<forall>tok\<in>set dateTokens. take (length tok) (c # rest) \<noteq> tok"
  shows "replaceTokens date (c # rest) = c # replaceTokens date rest"
proof -
  from assms have "tokenAt (c # rest) = None"
    unfolding tokenAt_def find_None_iff by blast
  then show ?thesis
    by (simp add: replaceTokens.simps [of date "c # rest"])
qed

lemma foldl_setPart_fields:
  "foldl setPart m parts (str ''YYYY'') =
     (case map_of (rev parts) (str ''year'') of Some v \<Rightarrow> Some v | None \<Rightarrow> m (str ''YYYY''))"
  "foldl setPart m parts (str ''MM'') =
     (case map_of (rev parts) (str ''month'') of Some v \<Rightarrow> Some v | None \<Rightarrow> m (str ''MM''))"
  "foldl setPart m parts (str ''DD'') =
     (case map_of (rev parts) (str ''day'') of Some v \<Rightarrow> Some v | None \<Rightarrow> m (str ''DD''))"
  "foldl setPart m parts (str ''HH'') =
     (case map_of (rev parts) (str ''hour'') of
        Some v \<Rightarrow> Some (if v = str ''24'' then str ''00'' else v) | None \<Rightarrow> m (str ''HH''))"
  "foldl setPart m parts (str ''mm'') =
     (case map_of (rev parts) (str ''minute'') of Some v \<Rightarrow> Some v | None \<Rightarrow> m (str ''mm''))"
  "foldl setPart m parts (str ''ss'') =
     (case map_of (rev parts) (str ''second'') of Some v \<Rightarrow> Some v | None \<Rightarrow> m (str ''ss''))"
  by (induction parts rule: rev_induct; simp add: setPart_def str_def split: prod.splits)+

text \<open>
  Claim C8. When the injected primitive returns parts and every one of the six types is
  among them, the result is the template with every token replaced by its field, read
  left to right: a token at the front is replaced and the scan goes on behind it, in
  the template; a character where no token starts passes through. The fields are the
  values of the last part of each type, an hour of \<open>24\<close> being \<open>00\<close>.
\<close>

theorem formatDateToString_substitutes:
  assumes "dateTimeFormat timestamp = Inr parts"
    and "map_of (rev parts) (str ''year'') = Some Y"
    and "map_of (rev parts) (str ''month'') = Some M"
    and "map_of (rev parts) (str ''day'') = Some D"
    and "map_of (rev parts) (str ''hour'') = Some H"
    and "map_of (rev parts) (str ''minute'') = Some Mi"
    and "map_of (rev parts) (str ''second'') = Some Sec"
  shows "\<exists>date. formatDateToDateTime dateTimeFormat timestamp = Inr date \<and>
     (\<forall>tmpl. formatDateToString dateTimeFormat timestamp tmpl
         = Inr (replaceTokens date tmpl)) \<and>
     dateField date (str ''YYYY'') = Y \<and> dateField date (str ''MM'') = M \<and>
     dateField date (str ''DD'') = D \<and>
     dateField date (str ''HH'') = (if H = str ''24'' then str ''00'' else H) \<and>
     dateField date (str ''mm'') = Mi \<and> dateField date (str ''ss'') = Sec \<and>
     replaceTokens date [] = [] \<and>
     (\<forall>tok\<in>set dateTokens. \<forall>rest.
        replaceTokens date (tok @ rest) = dateField date tok @ replaceTokens date rest) \<and>
     (\<forall>c rest. (\<forall>tok\<in>set dateTokens. take (length tok) (c # rest) \<noteq> tok)
        \<longrightarrow> replaceTokens date (c # rest) = c # replaceTokens date rest)"
proof -
  let ?date = "foldl setPart Map.empty parts"
  have "formatDateToDateTime dateTimeFormat timestamp = Inr ?date"
    using assms(1) by (simp add: formatDateToDateTime_def)
  moreover from this have "\<forall>tmpl. formatDateToString dateTimeFormat timestamp tmpl
         = Inr (replaceTokens ?date tmpl)"
    by (simp add: formatDateToString_def)
  moreover have "dateField ?date (str ''YYYY'') = Y" "dateField ?date (str ''MM'') = M"
    "dateField ?date (str ''DD'') = D"
    "dateField ?date (str ''HH'') = (if H = str ''24'' then str ''00'' else H)"
    "dateField ?date (str ''mm'') = Mi" "dateField ?date (str ''ss'') = Sec"
    using assms(2-) by (simp_all add: dateField_def foldl_setPart_fields)
  moreover have "replaceTokens ?date [] = []"
    by (simp add: replaceTokens.simps)
  ultimately show ?thesis
    using replaceTokens_token [of _ ?date] replaceTokens_other [of _ _ ?date] by blast
qed

theorem formatDateToString_substitutes_witness:
  "formatDateToString
     (\<lambda>t. Inr [(str ''month'', str ''01''), (str ''literal'', str ''/''), (str ''day'', str ''02''),
       (str ''literal'', str ''/''), (str ''year'', str ''2024''), (str ''literal'', str '', ''),
       (str ''hour'', str ''24''), (str ''literal'', str '':''), (str ''minute'', str ''04''),
       (str ''literal'', str '':''), (str ''second'', str ''05'')])
     (Fin False 0 0) (str ''HH:mm'') = Inr (str ''00:04'') \<and>
   formatDateToString
     (\<lambda>t. Inr [(str ''month'', str ''01''), (str ''literal'', str ''/''), (str ''day'', str ''02''),
       (str ''literal'', str ''/''), (str ''year'', str ''2024''), (str ''literal'', str '', ''),
       (str ''hour'', str ''24''), (str ''literal'', str '':''), (str ''minute'', str ''04''),
       (str ''literal'', str '':''), (str ''second'', str ''05'')])
     (Fin False 0 0) (str ''YYYY-MM-DD HH:mm:ss yyyy Mm'') = Inr (str ''2024-01-02 00:04:05 yyyy Mm'')"
proof -
  let ?parts = "[(str ''month'', str ''01''), (str ''literal'', str ''/''), (str ''day'', str ''02''),
       (str ''literal'', str ''/''), (str ''year'', str ''2024''), (str ''literal'', str '', ''),
       (str ''hour'', str ''24''), (str ''literal'', str '':''), (str ''minute'', str ''04''),
       (str ''literal'', str '':''), (str ''second'', str ''05'')]"
  let ?f = "\<lambda>t :: jsnum. Inr ?parts :: jserror + (jsstring \<times> jsstring) list"
  have p: "?f (Fin False 0 0) = Inr ?parts"
    "map_of (rev ?parts) (str ''year'') = Some (str ''2024'')"
    "map_of (rev ?parts) (str ''month'') = Some (str ''01'')"
    "map_of (rev ?parts) (str ''day'') = Some (str ''02'')"
    "map_of (rev ?parts) (str ''hour'') = Some (str ''24'')"
    "map_of (rev ?parts) (str ''minute'') = Some (str ''04'')"
    "map_of (rev ?parts) (str ''second'') = Some (str ''05'')"
    by (simp_all add: str_def)
  from formatDateToString_substitutes [OF p]
  obtain date where d: "\<forall>tmpl. formatDateToString ?f (Fin False 0 0) tmpl
         = Inr (replaceTokens date tmpl)"
    "dateField date (str ''HH'') = (if str ''24'' = str ''24'' then str ''00'' else str ''24'')"
    "dateField date (str ''mm'') = str ''04''"
    "replaceTokens date [] = []"
    "\<forall>tok\<in>set dateTokens. \<forall>rest.
        replaceTokens date (tok @ rest) = dateField date tok @ replaceTokens date rest"
    "\<forall>c rest. (\<forall>tok\<in>set dateTokens. take (length tok) (c # rest) \<noteq> tok)
        \<longrightarrow> replaceTokens date (c # rest) = c # replaceTokens date rest"
    by blast
  have hh: "str ''HH'' \<in> set dateTokens" and mm: "str ''mm'' \<in> set dateTokens"
    by (simp_all add: dateTokens_def)
  have colon: "\<forall>tok\<in>set dateTokens. take (length tok) (58 # str ''mm'') \<noteq> tok"
    by (simp add: dateTokens_def str_def)
  have "replaceTokens date (str ''mm'' @ []) = dateField date (str ''mm'') @ replaceTokens date []"
    using d(5) mm by blast
  then have m1: "replaceTokens date (str ''mm'') = str ''04''"
    using d(3,4) by simp
  have "replaceTokens date (58 # str ''mm'') = 58 # replaceTokens date (str ''mm'')"
    using d(6) colon by blast
  with m1 have c1: "replaceTokens date (58 # str ''mm'') = 58 # str ''04''"
    by simp
  have "replaceTokens date (str ''HH'' @ 58 # str ''mm'')
      = dateField date (str ''HH'') @ replaceTokens date (58 # str ''mm'')"
    using d(5) hh by blast
  with c1 d(2) have "replaceTokens date (str ''HH'' @ 58 # str ''mm'') = str ''00'' @ 58 # str ''04''"
    by simp
  then have "formatDateToString ?f (Fin False 0 0) (str ''HH:mm'') = Inr (str ''00:04'')"
    using d(1) by (simp add: str_def)
  moreover have "formatDateToString ?f (Fin False 0 0) (str ''YYYY-MM-DD HH:mm:ss yyyy Mm'')
      = Inr (str ''2024-01-02 00:04:05 yyyy Mm'')"
    by (simp add: date_eval)
  ultimately show ?thesis by blast
qed

section \<open>Properties of the numeric formatters\<close>

lemmas num_eval = js_eval stringToNumber_def strUnsigned_def exponentPart_def nonDecimal_def
  baseDigits_def digitVal_def finiteOrInfinity_def overflows_def toNumber_def isNumber_def jsGt_def
  scaled_def divPow10_def roundScaled_def fixedDigits_def toFixed_def atLeast1e21_def
  abbreviated_def formatBigNumber_def fractionDigits_def toLocaleStringId_def
  formatPrecision_def trim_def isWhite_def natOfDigits_def Let_def











lemma fractionDigits_nat: "k \<le> 100 \<Longrightarrow> fractionDigits (Fin False k 0) = Inr k"
  by (simp add: fractionDigits_def jsGt_def scaled_def)

lemma fixedDigits_shape:
  assumes "r < 10 ^ d"
  shows "\<exists>fr. fixedDigits [44] d r = (if d = 0 then [] else [44] @ fr) \<and> length fr = d \<and>
     list_all isDigit fr \<and> natOfDigits fr = r"
proof (cases "d = 0")
  case True
  with assms have "fixedDigits [44] d r = [] \<and> length ([]::nat list) = d \<and> list_all isDigit [] \<and>
    natOfDigits [] = r"
    by (simp add: fixedDigits_def natOfDigits_def)
  with True show ?thesis by auto
next
  case False
  define fr where "fr = replicate (d - length (decimal r)) 48 @ decimal r"
  have "length (decimal r) \<le> d" using assms False by (intro length_decimal) simp_all
  then have "length fr = d" by (simp add: fr_def)
  moreover have "list_all isDigit fr"
    using decimal_digits [of r] by (auto simp: fr_def list_all_iff isDigit_def)
  moreover have "natOfDigits fr = r"
    by (simp add: fr_def natOfDigits_append natOfDigits_zeros natOfDigits_decimal)
  moreover have "fixedDigits [44] d r = [44] @ fr"
    using False by (simp add: fixedDigits_def fr_def)
  ultimately show ?thesis using False by auto
qed

lemma roundScaled_nearest:
  "(0 \<le> e \<longrightarrow> roundScaled s e = s * 10 ^ nat e) \<and>
   (e < 0 \<longrightarrow> 2 * 10 ^ nat (- e) * roundScaled s e \<le> 2 * s + 10 ^ nat (- e) \<and>
              2 * s + 10 ^ nat (- e) < 2 * 10 ^ nat (- e) * (roundScaled s e + 1))"
proof (intro conjI impI)
  assume "0 \<le> e"
  then show "roundScaled s e = s * 10 ^ nat e" by (simp add: roundScaled_def)
next
  assume e: "e < 0"
  define D :: nat where "D = 2 * 10 ^ nat (- e)"
  have D: "0 < D" by (simp add: D_def)
  have r: "roundScaled s e = (2 * s + 10 ^ nat (- e)) div D"
    using e by (simp add: roundScaled_def D_def)
  have "D * ((2 * s + 10 ^ nat (- e)) div D) \<le> 2 * s + 10 ^ nat (- e)"
    by simp
  then show "2 * 10 ^ nat (- e) * roundScaled s e \<le> 2 * s + 10 ^ nat (- e)"
    by (simp add: r D_def)
  have "2 * s + 10 ^ nat (- e) < D * ((2 * s + 10 ^ nat (- e)) div D + 1)"
    using D by (metis Suc_eq_plus1 dividend_less_times_div mult.commute mult_Suc_right add.commute)
  then show "2 * s + 10 ^ nat (- e) < 2 * 10 ^ nat (- e) * (roundScaled s e + 1)"
    by (simp add: r D_def)
qed

text \<open>
  Claim C9, as the code has it, for a precision that the platform accepts: left out
  (then it is 2), or a number from 0 to 100, whose integer part \<open>d\<close> counts. A value
  whose coercion is finite is rendered with its sign, the integer digits grouped in
  threes by a period and, when \<open>d\<close> is not 0, a comma and exactly \<open>d\<close> fraction digits;
  the digits are those of the magnitude rounded at the last retained digit, halves away
  from zero. A value whose coercion is not finite is returned as its own text.
\<close>

theorem formatPrecision_renders:
  assumes "fractionDigits (case precision of None \<Rightarrow> Fin False 2 0 | Some p \<Rightarrow> p) = Inr d"
  shows "(precision = None \<longrightarrow> d = 2) \<and>
    (\<forall>k\<le>100. fractionDigits (Fin False k 0) = Inr k) \<and>
    (\<forall>neg s e. toNumber val = Fin neg s e \<longrightarrow>
       (\<exists>ip fr. formatPrecision val precision
            = Inr ((if neg then [45] else []) @ group3 [46] (decimal ip) @
                   (if d = 0 then [] else [44] @ fr)) \<and>
          length fr = d \<and> list_all isDigit fr \<and>
          ip * 10 ^ d + natOfDigits fr = roundScaled s (e + int d))) \<and>
    (\<forall>s e. (0 \<le> e \<longrightarrow> roundScaled s e = s * 10 ^ nat e) \<and>
       (e < 0 \<longrightarrow> 2 * 10 ^ nat (- e) * roundScaled s e \<le> 2 * s + 10 ^ nat (- e) \<and>
                  2 * s + 10 ^ nat (- e) < 2 * 10 ^ nat (- e) * (roundScaled s e + 1))) \<and>
    (\<not> isNumber (toNumber val) \<longrightarrow> formatPrecision val precision = Inr (template val))"
proof (intro conjI allI impI)
  assume "precision = None"
  with assms show "d = 2" by (simp add: fractionDigits_def jsGt_def scaled_def)
next
  fix k :: nat
  assume "k \<le> 100"
  then show "fractionDigits (Fin False k 0) = Inr k" by (rule fractionDigits_nat)
next
  fix neg s e
  assume v: "toNumber val = Fin neg s e"
  define n where "n = roundScaled s (e + int d)"
  have "n mod 10 ^ d < 10 ^ d" by simp
  then obtain fr where fr: "fixedDigits [44] d (n mod 10 ^ d) = (if d = 0 then [] else [44] @ fr)"
    "length fr = d" "list_all isDigit fr" "natOfDigits fr = n mod 10 ^ d"
    using fixedDigits_shape by blast
  have "formatPrecision val precision
      = Inr ((if neg then [45] else []) @ group3 [46] (decimal (n div 10 ^ d)) @
             (if d = 0 then [] else [44] @ fr))"
    using v assms fr(1)
    by (simp add: formatPrecision_def isNumber_def toLocaleStringId_def n_def Let_def)
  moreover have "n div 10 ^ d * 10 ^ d + natOfDigits fr = n"
    unfolding fr(4) by (rule div_mult_mod_eq)
  ultimately show "\<exists>ip fr. formatPrecision val precision
            = Inr ((if neg then [45] else []) @ group3 [46] (decimal ip) @
                   (if d = 0 then [] else [44] @ fr)) \<and>
          length fr = d \<and> list_all isDigit fr \<and>
          ip * 10 ^ d + natOfDigits fr = roundScaled s (e + int d)"
    using fr(2,3) unfolding n_def by blast
next
  fix s e
  show "0 \<le> e \<Longrightarrow> roundScaled s e = s * 10 ^ nat e"
    and "e < 0 \<Longrightarrow> 2 * 10 ^ nat (- e) * roundScaled s e \<le> 2 * s + 10 ^ nat (- e)"
    and "e < 0 \<Longrightarrow> 2 * s + 10 ^ nat (- e) < 2 * 10 ^ nat (- e) * (roundScaled s e + 1)"
    using roundScaled_nearest [of e s] by simp_all
next
  assume "\<not> isNumber (toNumber val)"
  then show "formatPrecision val precision = Inr (template val)"
    by (simp add: formatPrecision_def)
qed

theorem formatPrecision_renders_witness:
  "formatPrecision (N (Fin False 12345 (- 1))) (Some (Fin False 2 0)) = Inr (str ''1.234,50'') \<and>
   formatPrecision (N (Fin False 12345 (- 1))) None = Inr (str ''1.234,50'') \<and>
   formatPrecision (N (Fin True 5 (- 3))) None = Inr (str ''-0,01'') \<and>
   formatPrecision (S (str ''abc'')) None = Inr (str ''abc'')"
proof -
  have d: "fractionDigits (case Some (Fin False 2 0) of None \<Rightarrow> Fin False 2 0 | Some p \<Rightarrow> p) = Inr 2"
    by (simp add: num_eval)
  note r = formatPrecision_renders [OF d, THEN conjunct2, THEN conjunct2, THEN conjunct1, rule_format]
  note keep = formatPrecision_renders [OF d, THEN conjunct2, THEN conjunct2, THEN conjunct2,
    THEN conjunct2, rule_format]
  have v: "toNumber (N (Fin False 12345 (- 1))) = Fin False 12345 (- 1)"
    by (simp add: toNumber_def)
  from r [OF v] obtain ip fr where o:
    "formatPrecision (N (Fin False 12345 (- 1))) (Some (Fin False 2 0))
       = Inr ((if False then [45] else []) @ group3 [46] (decimal ip) @
              (if (2::nat) = 0 then [] else [44] @ fr))"
    "length fr = 2" "list_all isDigit fr"
    "ip * 10 ^ 2 + natOfDigits fr = roundScaled 12345 (- 1 + int 2)"
    by blast
  have "formatPrecision (N (Fin False 12345 (- 1))) (Some (Fin False 2 0)) = Inr (str ''1.234,50'')"
    by (simp add: num_eval)
  moreover have "formatPrecision (N (Fin False 12345 (- 1))) None = Inr (str ''1.234,50'')"
    by (simp add: num_eval)
  moreover have "formatPrecision (N (Fin True 5 (- 3))) None = Inr (str ''-0,01'')"
    by (simp add: num_eval)
  moreover have "formatPrecision (S (str ''abc'')) (Some (Fin False 2 0)) = Inr (template (S (str ''abc'')))"
    by (rule keep) (simp add: num_eval)
  moreover have "formatPrecision (S (str ''abc'')) None = Inr (str ''abc'')"
    by (simp add: num_eval)
  ultimately show ?thesis using o by simp
qed

text \<open>
  Claim C9 as stated fails for a precision outside the range of the platform's option:
  for a finite value the call raises a RangeError.
\<close>

theorem formatPrecision_renders_counterexample:
  "isNumber (toNumber (N (Fin False 12345 (- 1)))) \<and>
   formatPrecision (N (Fin False 12345 (- 1))) (Some (Fin True 1 0)) = Inl RangeError"
  by (simp add: num_eval)

text \<open>
  Claim C10. The empty string is coerced to the finite number 0, so it is formatted as
  zero at the default precision and is not returned unchanged; the text of the value is
  returned exactly when the coercion is not finite.
\<close>

theorem formatPrecision_empty_string:
  "toNumber (S []) = Fin False 0 0 \<and> isNumber (toNumber (S [])) \<and>
   formatPrecision (S []) None = Inr (str ''0,00'') \<and>
   formatPrecision (S []) None \<noteq> Inr (template (S [])) \<and>
   (\<forall>val precision.
      (\<not> isNumber (toNumber val) \<longrightarrow> formatPrecision val precision = Inr (template val)) \<and>
      (isNumber (toNumber val) \<longrightarrow> formatPrecision val precision =
         (case fractionDigits (case precision of None \<Rightarrow> Fin False 2 0 | Some p \<Rightarrow> p) of
            Inl err \<Rightarrow> Inl err
          | Inr p \<Rightarrow> Inr (toLocaleStringId (toNumber val) p))))"
proof (intro conjI allI impI)
  show "toNumber (S []) = Fin False 0 0" "isNumber (toNumber (S []))"
    "formatPrecision (S []) None = Inr (str ''0,00'')"
    "formatPrecision (S []) None \<noteq> Inr (template (S []))"
    by (simp_all add: num_eval)
next
  fix val precision
  show "\<not> isNumber (toNumber val) \<Longrightarrow> formatPrecision val precision = Inr (template val)"
    by (simp add: formatPrecision_def)
  show "isNumber (toNumber val) \<Longrightarrow> formatPrecision val precision =
         (case fractionDigits (case precision of None \<Rightarrow> Fin False 2 0 | Some p \<Rightarrow> p) of
            Inl err \<Rightarrow> Inl err
          | Inr p \<Rightarrow> Inr (toLocaleStringId (toNumber val) p))"
    by (simp add: formatPrecision_def)
qed

theorem formatPrecision_empty_string_witness:
  "formatPrecision (S (str ''abc'')) None = Inr (str ''abc'') \<and>
   formatPrecision (S (str ''  '')) None = Inr (str ''0,00'') \<and>
   formatPrecision (S (str ''12'')) (Some (Fin False 1 0)) = Inr (str ''12,0'')"
proof -
  note fb = formatPrecision_empty_string [THEN conjunct2, THEN conjunct2, THEN conjunct2,
    THEN conjunct2, THEN spec, THEN spec, THEN conjunct1, THEN mp]
  note lc = formatPrecision_empty_string [THEN conjunct2, THEN conjunct2, THEN conjunct2,
    THEN conjunct2, THEN spec, THEN spec, THEN conjunct2, THEN mp]
  have "formatPrecision (S (str ''abc'')) None = Inr (template (S (str ''abc'')))"
    by (rule fb) (simp add: num_eval)
  moreover have "formatPrecision (S (str ''  '')) None =
      (case fractionDigits (case None of None \<Rightarrow> Fin False 2 0 | Some p \<Rightarrow> p) of
         Inl err \<Rightarrow> Inl err
       | Inr p \<Rightarrow> Inr (toLocaleStringId (toNumber (S (str ''  ''))) p))"
    by (rule lc) (simp add: num_eval)
  moreover have "formatPrecision (S (str ''12'')) (Some (Fin False 1 0)) =
      (case fractionDigits (case Some (Fin False 1 0) of None \<Rightarrow> Fin False 2 0 | Some p \<Rightarrow> p) of
         Inl err \<Rightarrow> Inl err
       | Inr p \<Rightarrow> Inr (toLocaleStringId (toNumber (S (str ''12''))) p))"
    by (rule lc) (simp add: num_eval)
  ultimately show ?thesis by (simp add: num_eval)
qed



end
